theory Spec2Isabelle
  imports Main "HOL-Library.Word"
begin

section \<open>The partition manager of the kafkaconsumer package\<close>

text \<open>
  The source is one Go file: the type \<open>partitionManager\<close> and its methods \<open>run\<close>,
  \<open>startPartitionOffsetManager\<close>, \<open>waitForProcessing\<close>, \<open>ack\<close>, \<open>claimPartition\<close>,
  \<open>startPartitionConsumer\<close>, \<open>closePartitionConsumer\<close> and \<open>releasePartition\<close>.

  The manager talks to three external clients (Zookeeper through kazoo, the sarama offset
  manager, the sarama consumer) and to its tomb. Their answers are inputs of the model:
  every loop of the source consumes a list with one element per iteration, holding what the
  outside world answers in that iteration (the value a call returns, the case a
  \<open>select\<close> takes). A list that ends while the loop is still retrying gives \<open>None\<close>:
  the method has not returned. What the manager does to the outside world is recorded as
  a list of events, in the order the source performs the calls.
\<close>

subsection \<open>Data\<close>

type_synonym int64 = "64 word"

text \<open>Go's \<open>error\<close> values; \<open>nil\<close> is \<open>None\<close> of \<open>error option\<close>.\<close>

datatype error =
    ErrStillAlive
  | ErrDying
  | ErrOffsetOutOfRange
  | ErrAlreadyOwner
  | ErrOther string

text \<open>A runtime panic of the Go program.\<close>

datatype panic = NilDereference | CloseOfClosedChannel | KillErrDyingWhileAlive

text \<open>
  The sarama constant \<open>OffsetNewest\<close>, a possible value of \<open>Offsets.Initial\<close>. (The
  source distinguishes it and \<open>OffsetOldest\<close> only to choose a log line; logging is not
  modelled.)
\<close>

definition OffsetNewest :: int64 where
  "OffsetNewest = - 1"

record consumer_message =
  msg_offset :: int64
  msg_value :: string

text \<open>
  The handle \<open>sarama.PartitionOffsetManager\<close>: the model keeps the offsets handed to
  \<open>SetOffset\<close>, the latest first. What \<open>Offset()\<close> returns is an input.
\<close>

record partitionOffsetManager =
  set_offsets :: "int64 list"

definition SetOffset :: "partitionOffsetManager \<Rightarrow> int64 \<Rightarrow> partitionOffsetManager" where
  "SetOffset om off = om\<lparr>set_offsets := off # set_offsets om\<rparr>"

text \<open>The handle \<open>sarama.PartitionConsumer\<close>, with the offset it was opened at.\<close>

record partitionConsumer =
  opened_at :: int64

text \<open>
  The fields of \<open>partitionManager\<close> the methods read and write. \<open>t_err\<close> is what
  \<open>pm.t.Err()\<close> returns: \<open>Some ErrStillAlive\<close> while the tomb is alive, the reason of
  the kill afterwards (\<open>None\<close> after \<open>interrupt\<close>, which kills with \<open>nil\<close>).
  \<open>processingDone\<close> is \<open>True\<close> once the channel is closed. A nil interface value in
  \<open>offsetManager\<close> is \<open>None\<close>.
\<close>

record partitionManager =
  t_err :: "error option"
  offsetManager :: "partitionOffsetManager option"
  lastConsumedOffset :: int64
  processingDone :: bool

record config =
  Offsets_Initial :: int64
  MaxProcessingTime :: nat

subsection \<open>The tomb\<close>

text \<open>
  Modelled from the documentation of the library \<open>gopkg.in/tomb.v1\<close>, which is not
  among the sources: \<open>Kill\<close> puts the tomb in the dying state and keeps the first reason
  that is not \<open>nil\<close>; \<open>Kill\<close> with \<open>ErrDying\<close> keeps the reason there is and panics
  when the tomb is still alive; \<open>Done\<close> calls \<open>Kill\<close> with \<open>nil\<close> and marks the tomb
  dead. \<open>kill_reason reason old\<close> is the reason after \<open>Kill\<close>.
\<close>

definition kill_reason :: "error option \<Rightarrow> error option \<Rightarrow> error option" where
  "kill_reason reason old =
     (if reason = Some ErrDying then old
      else if old = None \<or> old = Some ErrStillAlive then reason
      else old)"

definition t_Kill :: "error option \<Rightarrow> partitionManager \<Rightarrow> panic + partitionManager" where
  "t_Kill reason pm =
     (if reason = Some ErrDying \<and> t_err pm = Some ErrStillAlive
      then Inl KillErrDyingWhileAlive
      else Inr (pm\<lparr>t_err := kill_reason reason (t_err pm)\<rparr>))"

definition t_Done :: "partitionManager \<Rightarrow> partitionManager" where
  "t_Done pm = pm\<lparr>t_err := kill_reason None (t_err pm)\<rparr>"

text \<open>The method \<open>interrupt\<close>: \<open>pm.t.Kill(nil)\<close>, which never panics.\<close>

definition interrupt :: "partitionManager \<Rightarrow> partitionManager" where
  "interrupt pm = pm\<lparr>t_err := kill_reason None (t_err pm)\<rparr>"

text \<open>The case a two-way \<open>select\<close> takes: the tomb's \<open>Dying\<close> channel, or the other one.\<close>

datatype wake = Woken | Interrupted

text \<open>How \<open>waitForProcessing\<close> ended, with the time the wait took.\<close>

datatype drain_outcome =
    NothingConsumed
  | AlreadyProcessed
  | Processed nat
  | TimedOut nat

text \<open>The calls and waits of the manager, as they appear in a trace.\<close>

datatype event =
    WatchPartitionOwner "string option" "error option"
  | WatchChanged
  | Sleep1
  | ClaimPartition "error option"
  | ManagePartition "error option"
  | ConsumePartition int64 "error option"
  | ForwardMessage consumer_message
  | StoreLastConsumedOffset int64
  | ForwardError error
  | ConsumerClose "error option"
  | Drain drain_outcome
  | OffsetManagerClose
  | ReleasePartition "error option"
  | Kill error
  | TombDone

type_synonym 'r traced = "('r \<times> event list) option"

text \<open>Prefix the events of the current iteration to what the rest of the loop does.\<close>

definition emit :: "event list \<Rightarrow> 'r traced \<Rightarrow> 'r traced" where
  "emit evs r = map_option (\<lambda>(x, tr). (x, evs @ tr)) r"

subsection \<open>claimPartition\<close>

text \<open>
  One iteration of the loop of \<open>claimPartition\<close>: the three values
  \<open>WatchPartitionOwner\<close> returns (the \<open>changed\<close> channel is the \<open>wake\<close> of the second
  select), the case the select of this iteration takes, and what \<open>ClaimPartition\<close>
  returns when the iteration calls it.
\<close>

record claim_iter =
  watch_owner :: "string option"
  watch_err :: "error option"
  claim_wake :: wake
  claim_err :: "error option"

fun claimPartition :: "string \<Rightarrow> claim_iter list \<Rightarrow> (error option) traced" where
  "claimPartition self [] = None"
| "claimPartition self (a # as) =
     (case watch_err a of
        Some e \<Rightarrow>
          (case claim_wake a of
             Woken \<Rightarrow>
               emit [WatchPartitionOwner (watch_owner a) (Some e), Sleep1]
                 (claimPartition self as)
           | Interrupted \<Rightarrow>
               Some (Some ErrDying, [WatchPartitionOwner (watch_owner a) (Some e)]))
      | None \<Rightarrow>
          (case watch_owner a of
             Some ow \<Rightarrow>
               if ow = self
               then Some (Some ErrAlreadyOwner, [WatchPartitionOwner (Some ow) None])
               else
                 (case claim_wake a of
                    Woken \<Rightarrow>
                      emit [WatchPartitionOwner (Some ow) None, WatchChanged]
                        (claimPartition self as)
                  | Interrupted \<Rightarrow>
                      Some (Some ErrDying, [WatchPartitionOwner (Some ow) None]))
           | None \<Rightarrow>
               (case claim_err a of
                  Some e \<Rightarrow>
                    emit [WatchPartitionOwner None None, ClaimPartition (Some e)]
                      (claimPartition self as)
                | None \<Rightarrow>
                    Some (None, [WatchPartitionOwner None None, ClaimPartition None]))))"

subsection \<open>startPartitionOffsetManager\<close>

text \<open>One iteration: what \<open>ManagePartition\<close> returns and the case the select takes.\<close>

record om_iter =
  manage_err :: "error option"
  om_wake :: wake

fun startPartitionOffsetManager ::
  "om_iter list \<Rightarrow> (error + partitionOffsetManager) traced" where
  "startPartitionOffsetManager [] = None"
| "startPartitionOffsetManager (a # as) =
     (case manage_err a of
        Some e \<Rightarrow>
          (case om_wake a of
             Interrupted \<Rightarrow> Some (Inl ErrDying, [ManagePartition (Some e)])
           | Woken \<Rightarrow> emit [ManagePartition (Some e), Sleep1] (startPartitionOffsetManager as))
      | None \<Rightarrow> Some (Inr \<lparr>set_offsets = []\<rparr>, [ManagePartition None]))"

subsection \<open>startPartitionConsumer\<close>

text \<open>One iteration: what \<open>ConsumePartition\<close> returns and the case the select takes.\<close>

record pc_iter =
  consume_err :: "error option"
  pc_wake :: wake

fun startPartitionConsumer ::
  "config \<Rightarrow> int64 \<Rightarrow> pc_iter list \<Rightarrow> (error + partitionConsumer) traced" where
  "startPartitionConsumer cfg initialOffset [] = None"
| "startPartitionConsumer cfg initialOffset (a # as) =
     (case consume_err a of
        None \<Rightarrow> Some (Inr \<lparr>opened_at = initialOffset\<rparr>, [ConsumePartition initialOffset None])
      | Some e \<Rightarrow>
          if e = ErrOffsetOutOfRange
          then emit [ConsumePartition initialOffset (Some e)]
                 (startPartitionConsumer cfg (Offsets_Initial cfg) as)
          else
            (case pc_wake a of
               Interrupted \<Rightarrow> Some (Inl ErrDying, [ConsumePartition initialOffset (Some e)])
             | Woken \<Rightarrow>
                 emit [ConsumePartition initialOffset (Some e), Sleep1]
                   (startPartitionConsumer cfg initialOffset as)))"

subsection \<open>The starting offset\<close>

text \<open>
  Lines 49 to 55 of \<open>run\<close>: \<open>committed\<close> is what \<open>offsetManager.Offset()\<close> returns.
  The comparison is the signed one of \<open>int64\<close>, the addition is the one of \<open>int64\<close>.
\<close>

definition resolveInitialOffset :: "config \<Rightarrow> int64 \<Rightarrow> int64" where
  "resolveInitialOffset cfg committed =
     (if sint committed < 0 then Offsets_Initial cfg else committed + 1)"

subsection \<open>waitForProcessing\<close>

text \<open>
  The inputs of the drain: what \<open>pm.offsetManager.Offset()\<close> returns now, the time
  after which \<open>ack\<close> closes \<open>processingDone\<close> (\<open>None\<close>: never), and the case the
  select takes when the channel and the timer are ready at the same instant. Time is
  counted in ticks from the start of the wait; \<open>time.After d\<close> fires at tick \<open>d\<close>.
\<close>

record drain_env =
  drain_committed :: int64
  closed_after :: "nat option"
  tie_takes_signal :: bool

text \<open>
  The first statement calls \<open>Offset()\<close> on the interface value \<open>pm.offsetManager\<close>,
  which panics when the value is nil.
\<close>

definition waitForProcessing ::
  "config \<Rightarrow> partitionManager \<Rightarrow> drain_env \<Rightarrow> panic + drain_outcome" where
  "waitForProcessing cfg pm env =
     (case offsetManager pm of
        None \<Rightarrow> Inl NilDereference
      | Some om \<Rightarrow>
          (let lastProcessedOffset = drain_committed env;
               lastConsumed = lastConsumedOffset pm
           in if 0 \<le> sint lastConsumed then
                if sint lastProcessedOffset < sint lastConsumed then
                  (case (if processingDone pm then Some 0 else closed_after env) of
                     Some d \<Rightarrow>
                       if d < MaxProcessingTime cfg
                          \<or> (d = MaxProcessingTime cfg \<and> tie_takes_signal env)
                       then Inr (Processed d)
                       else Inr (TimedOut (MaxProcessingTime cfg))
                   | None \<Rightarrow> Inr (TimedOut (MaxProcessingTime cfg)))
                else Inr AlreadyProcessed
              else Inr NothingConsumed))"



subsection \<open>ack\<close>

text \<open>
  \<open>ack\<close> calls \<open>SetOffset\<close> on the interface value \<open>pm.offsetManager\<close>, which panics
  when the value is nil, and closes \<open>pm.processingDone\<close>, which panics when the channel
  is closed already.
\<close>

definition ack :: "partitionManager \<Rightarrow> int64 \<Rightarrow> panic + partitionManager" where
  "ack pm off =
     (case offsetManager pm of
        None \<Rightarrow> Inl NilDereference
      | Some om \<Rightarrow>
          (let pm1 = pm\<lparr>offsetManager := Some (SetOffset om off)\<rparr>
           in if t_err pm1 \<noteq> Some ErrStillAlive \<and> off = lastConsumedOffset pm1
              then if processingDone pm1 then Inl CloseOfClosedChannel
                   else Inr (pm1\<lparr>processingDone := True\<rparr>)
              else Inr pm1))"

subsection \<open>The dispatch loop of run\<close>

text \<open>
  One iteration of the \<open>for\<close>/\<open>select\<close> loop of \<open>run\<close>: the case the outer select
  takes, with the value received, and for the three forwarding cases the case the inner
  select takes (\<open>Woken\<close>: the send to the parent's channel went through).
\<close>

datatype loop_event =
    LoopDying
  | LoopMessage consumer_message wake
  | LoopOffsetManagerError error wake
  | LoopConsumerError error wake

fun consumeLoop :: "partitionManager \<Rightarrow> loop_event list \<Rightarrow> partitionManager traced" where
  "consumeLoop pm [] = None"
| "consumeLoop pm (LoopDying # es) = Some (pm, [])"
| "consumeLoop pm (LoopMessage msg w # es) =
     (case w of
        Woken \<Rightarrow>
          emit [ForwardMessage msg, StoreLastConsumedOffset (msg_offset msg)]
            (consumeLoop (pm\<lparr>lastConsumedOffset := msg_offset msg\<rparr>) es)
      | Interrupted \<Rightarrow> Some (pm, []))"
| "consumeLoop pm (LoopOffsetManagerError err w # es) =
     (case w of
        Woken \<Rightarrow> emit [ForwardError err] (consumeLoop pm es)
      | Interrupted \<Rightarrow> Some (pm, []))"
| "consumeLoop pm (LoopConsumerError err w # es) =
     (case w of
        Woken \<Rightarrow> emit [ForwardError err] (consumeLoop pm es)
      | Interrupted \<Rightarrow> Some (pm, []))"

subsection \<open>run\<close>

text \<open>
  Everything the outside world answers during one \<open>run\<close>: the iterations of the three
  retry loops, the committed offset \<open>offsetManager.Offset()\<close> returns at startup, the
  iterations of the dispatch loop, the inputs of the drain, and what \<open>pc.Close()\<close> and
  \<open>ReleasePartition\<close> return.
\<close>

record environment =
  env_claim :: "claim_iter list"
  env_manage :: "om_iter list"
  env_committed :: int64
  env_consume :: "pc_iter list"
  env_loop :: "loop_event list"
  env_drain :: drain_env
  env_close_err :: "error option"
  env_release_err :: "error option"

text \<open>
  The deferred calls run when \<open>run\<close> returns, the last deferred first:
  \<open>closePartitionConsumer\<close>, \<open>waitForProcessing\<close>, \<open>offsetManager.Close\<close>,
  \<open>releasePartition\<close>, \<open>t.Done\<close>; each only if \<open>run\<close> reached its \<open>defer\<close>.

  The tomb. A helper returns \<open>ErrDying\<close>, and the dispatch loop returns, only after the
  \<open>Dying\<close> channel fired, that is after \<open>interrupt\<close> was called from another goroutine
  (no other method of the source kills the tomb from outside): at these points the
  manager is \<open>interrupt pm\<close>. \<open>killed err pm\<close> is the call \<open>pm.t.Kill(err)\<close> of \<open>run\<close>
  after a helper returned \<open>err\<close>.

  \<open>run\<close> has two calls that can panic, \<open>pm.t.Kill\<close> and \<open>waitForProcessing\<close>. A
  panic would give \<open>None\<close> (\<open>run\<close> does not return); the facts \<open>killed_dying\<close> and
  \<open>run_returns\<close> below show that neither occurs.
\<close>

definition killed :: "error \<Rightarrow> partitionManager \<Rightarrow> panic + partitionManager" where
  "killed err pm = t_Kill (Some err) (if err = ErrDying then interrupt pm else pm)"

definition run ::
  "config \<Rightarrow> string \<Rightarrow> environment \<Rightarrow> partitionManager \<Rightarrow> partitionManager traced" where
  "run cfg self env pm =
     (case claimPartition self (env_claim env) of
        None \<Rightarrow> None
      | Some (Some err, tr1) \<Rightarrow>
          (case killed err pm of
             Inl p \<Rightarrow> None
           | Inr pmk \<Rightarrow> Some (t_Done pmk, tr1 @ [Kill err] @ [TombDone]))
      | Some (None, tr1) \<Rightarrow>
          (case startPartitionOffsetManager (env_manage env) of
             None \<Rightarrow> None
           | Some (Inl err, tr2) \<Rightarrow>
               (case killed err pm of
                  Inl p \<Rightarrow> None
                | Inr pmk \<Rightarrow>
                    Some (t_Done pmk, tr1 @ tr2 @ [Kill err]
                                      @ [ReleasePartition (env_release_err env), TombDone]))
           | Some (Inr om, tr2) \<Rightarrow>
               (let pm1 = pm\<lparr>offsetManager := Some om\<rparr>;
                    initialOffset = resolveInitialOffset cfg (env_committed env)
                in case startPartitionConsumer cfg initialOffset (env_consume env) of
                     None \<Rightarrow> None
                   | Some (Inl err, tr3) \<Rightarrow>
                       (case killed err pm1 of
                          Inl p \<Rightarrow> None
                        | Inr pmk \<Rightarrow>
                            (case waitForProcessing cfg pmk (env_drain env) of
                               Inl p \<Rightarrow> None
                             | Inr out \<Rightarrow>
                                 Some (t_Done pmk, tr1 @ tr2 @ tr3 @ [Kill err]
                                         @ [Drain out, OffsetManagerClose,
                                            ReleasePartition (env_release_err env), TombDone])))
                   | Some (Inr pc, tr3) \<Rightarrow>
                       (case consumeLoop pm1 (env_loop env) of
                          None \<Rightarrow> None
                        | Some (pm2, tr4) \<Rightarrow>
                            (case waitForProcessing cfg (interrupt pm2) (env_drain env) of
                               Inl p \<Rightarrow> None
                             | Inr out \<Rightarrow>
                                 Some (t_Done (interrupt pm2), tr1 @ tr2 @ tr3 @ tr4
                                         @ [ConsumerClose (env_close_err env), Drain out,
                                            OffsetManagerClose,
                                            ReleasePartition (env_release_err env),
                                            TombDone]))))))"





subsection \<open>The startup helpers, as the amended specification words them\<close>

text \<open>
  "Start the offset manager": the attempts that fail and whose one second wait is not
  interrupted are retried, each after that wait; the first other attempt ends the loop,
  with the handle when it succeeded and with \<open>ErrDying\<close> when it failed and the tomb
  died during the wait. Without such an attempt the loop does not return.
\<close>

definition manage_retried :: "om_iter \<Rightarrow> bool" where
  "manage_retried a = (manage_err a \<noteq> None \<and> om_wake a = Woken)"

definition spec_startPartitionOffsetManager ::
  "om_iter list \<Rightarrow> (error + partitionOffsetManager) traced" where
  "spec_startPartitionOffsetManager ms =
     (case dropWhile manage_retried ms of
        [] \<Rightarrow> None
      | a # rest \<Rightarrow>
          Some (if manage_err a = None then Inr \<lparr>set_offsets = []\<rparr> else Inl ErrDying,
                concat (map (\<lambda>b. [ManagePartition (manage_err b), Sleep1])
                          (takeWhile manage_retried ms))
                @ [ManagePartition (manage_err a)]))"

text \<open>
  "Start the consumer at an offset": an attempt that fails with \<open>ErrOffsetOutOfRange\<close>
  is retried at once at the configured initial offset; an attempt that fails otherwise
  and whose one second wait is not interrupted is retried after that wait at the same
  offset; the first other attempt ends the loop, as above.
\<close>

definition consume_retried :: "pc_iter \<Rightarrow> bool" where
  "consume_retried a =
     (consume_err a = Some ErrOffsetOutOfRange
      \<or> (consume_err a \<noteq> None \<and> pc_wake a = Woken))"

fun retry_events :: "config \<Rightarrow> int64 \<Rightarrow> pc_iter list \<Rightarrow> event list" where
  "retry_events cfg off [] = []"
| "retry_events cfg off (b # bs) =
     (if consume_err b = Some ErrOffsetOutOfRange
      then ConsumePartition off (consume_err b) # retry_events cfg (Offsets_Initial cfg) bs
      else ConsumePartition off (consume_err b) # Sleep1 # retry_events cfg off bs)"

definition offset_after :: "config \<Rightarrow> int64 \<Rightarrow> pc_iter list \<Rightarrow> int64" where
  "offset_after cfg off bs =
     (if list_ex (\<lambda>b. consume_err b = Some ErrOffsetOutOfRange) bs
      then Offsets_Initial cfg else off)"

definition spec_startPartitionConsumer ::
  "config \<Rightarrow> int64 \<Rightarrow> pc_iter list \<Rightarrow> (error + partitionConsumer) traced" where
  "spec_startPartitionConsumer cfg off cs =
     (case dropWhile consume_retried cs of
        [] \<Rightarrow> None
      | a # rest \<Rightarrow>
          (let pre = takeWhile consume_retried cs;
               final = offset_after cfg off pre
           in Some (if consume_err a = None then Inr \<lparr>opened_at = final\<rparr> else Inl ErrDying,
                    retry_events cfg off pre @ [ConsumePartition final (consume_err a)])))"

subsection \<open>Reading a trace\<close>

datatype resource = Claim | OffsetHandle | ConsumerHandle

fun acquires :: "resource \<Rightarrow> event \<Rightarrow> bool" where
  "acquires Claim (ClaimPartition None) = True"
| "acquires OffsetHandle (ManagePartition None) = True"
| "acquires ConsumerHandle (ConsumePartition off None) = True"
| "acquires r e = False"

fun releases :: "resource \<Rightarrow> event \<Rightarrow> bool" where
  "releases Claim (ReleasePartition err) = True"
| "releases OffsetHandle OffsetManagerClose = True"
| "releases ConsumerHandle (ConsumerClose err) = True"
| "releases r e = False"

definition acquired :: "resource \<Rightarrow> event list \<Rightarrow> nat" where
  "acquired r tr = length (filter (acquires r) tr)"

definition released :: "resource \<Rightarrow> event list \<Rightarrow> nat" where
  "released r tr = length (filter (releases r) tr)"

text \<open>The offsets \<open>ConsumePartition\<close> was called with, in order.\<close>

fun consume_offsets :: "event list \<Rightarrow> int64 list" where
  "consume_offsets [] = []"
| "consume_offsets (ConsumePartition off err # tr) = off # consume_offsets tr"
| "consume_offsets (e # tr) = consume_offsets tr"

text \<open>The values stored in \<open>lastConsumedOffset\<close>, in order.\<close>

fun stored_offsets :: "event list \<Rightarrow> int64 list" where
  "stored_offsets [] = []"
| "stored_offsets (StoreLastConsumedOffset off # tr) = off # stored_offsets tr"
| "stored_offsets (e # tr) = stored_offsets tr"

fun forwarded_messages :: "event list \<Rightarrow> consumer_message list" where
  "forwarded_messages [] = []"
| "forwarded_messages (ForwardMessage msg # tr) = msg # forwarded_messages tr"
| "forwarded_messages (e # tr) = forwarded_messages tr"

text \<open>The offsets of the messages the consumer handle delivers to the loop, in order.\<close>

fun delivered :: "loop_event list \<Rightarrow> int64 list" where
  "delivered [] = []"
| "delivered (LoopMessage msg w # es) = msg_offset msg # delivered es"
| "delivered (e # es) = delivered es"

text \<open>The error of a failed \<open>ManagePartition\<close> or \<open>ConsumePartition\<close> call.\<close>

fun failed_open :: "event \<Rightarrow> error option" where
  "failed_open (ManagePartition (Some e)) = Some e"
| "failed_open (ConsumePartition off (Some e)) = Some e"
| "failed_open e = None"

text \<open>
  Every failed open that is retried is followed by the one second wait, but for the
  errors \<open>exempt\<close> holds of. (A failed open at the end of a trace is not retried: the
  method returned.)
\<close>

fun retries_delayed :: "(error \<Rightarrow> bool) \<Rightarrow> event list \<Rightarrow> bool" where
  "retries_delayed exempt [] = True"
| "retries_delayed exempt [e] = True"
| "retries_delayed exempt (e1 # e2 # tr) =
     ((case failed_open e1 of
         None \<Rightarrow> True
       | Some err \<Rightarrow> exempt err \<or> e2 = Sleep1)
      \<and> retries_delayed exempt (e2 # tr))"

definition no_exemption :: "error \<Rightarrow> bool" where
  "no_exemption e = False"

definition is_out_of_range :: "error \<Rightarrow> bool" where
  "is_out_of_range e = (e = ErrOffsetOutOfRange)"

text \<open>The number of \<open>ConsumePartition\<close> calls that failed with \<open>ErrOffsetOutOfRange\<close>.\<close>

definition out_of_range_failures :: "event list \<Rightarrow> nat" where
  "out_of_range_failures tr =
     length (filter (\<lambda>e. failed_open e = Some ErrOffsetOutOfRange) tr)"

subsection \<open>The states of the specification\<close>

text \<open>
  The states of section 4.1 of the specification, and the state each call belongs to in
  the specification's words: the three closing calls make up the state Releasing. The
  one second wait and \<open>Kill\<close> occur in several states and belong to none.
\<close>

datatype state =
    Claiming
  | OffsetManagerStarting
  | ConsumerStarting
  | Consuming
  | Draining
  | Releasing
  | Done

fun state_rank :: "state \<Rightarrow> nat" where
  "state_rank Claiming = 0"
| "state_rank OffsetManagerStarting = 1"
| "state_rank ConsumerStarting = 2"
| "state_rank Consuming = 3"
| "state_rank Draining = 4"
| "state_rank Releasing = 5"
| "state_rank Done = 6"

fun spec_state :: "event \<Rightarrow> state option" where
  "spec_state (WatchPartitionOwner ow err) = Some Claiming"
| "spec_state WatchChanged = Some Claiming"
| "spec_state (ClaimPartition err) = Some Claiming"
| "spec_state (ManagePartition err) = Some OffsetManagerStarting"
| "spec_state (ConsumePartition off err) = Some ConsumerStarting"
| "spec_state (ForwardMessage msg) = Some Consuming"
| "spec_state (StoreLastConsumedOffset off) = Some Consuming"
| "spec_state (ForwardError err) = Some Consuming"
| "spec_state (Drain out) = Some Draining"
| "spec_state (ConsumerClose err) = Some Releasing"
| "spec_state OffsetManagerClose = Some Releasing"
| "spec_state (ReleasePartition err) = Some Releasing"
| "spec_state TombDone = Some Done"
| "spec_state Sleep1 = None"
| "spec_state (Kill err) = None"

definition spec_ranks :: "event list \<Rightarrow> nat list" where
  "spec_ranks tr = map state_rank (List.map_filter spec_state tr)"

text \<open>
  The order in which \<open>run\<close> performs its calls: as \<open>state_rank\<close> up to Consuming, then
  the deferred calls one by one.
\<close>

fun run_step :: "event \<Rightarrow> nat option" where
  "run_step (ConsumerClose err) = Some 4"
| "run_step (Drain out) = Some 5"
| "run_step OffsetManagerClose = Some 6"
| "run_step (ReleasePartition err) = Some 7"
| "run_step TombDone = Some 8"
| "run_step e = map_option state_rank (spec_state e)"

definition run_steps :: "event list \<Rightarrow> nat list" where
  "run_steps tr = List.map_filter run_step tr"

subsection \<open>A concrete run\<close>

text \<open>
  Modelled from the spec: the constructor of \<open>partitionManager\<close> is not among the
  sources. A fresh manager has the tomb alive, no offset manager bound,
  \<open>lastConsumedOffset\<close> at the sentinel for "none" (a negative value, here \<open>-1\<close>) and
  \<open>processingDone\<close> open. The theorems about \<open>run\<close> and \<open>ack\<close> hold for every
  manager; this one is the input of the concrete runs.
\<close>

definition fresh_pm :: partitionManager where
  "fresh_pm =
     \<lparr>t_err = Some ErrStillAlive, offsetManager = None,
      lastConsumedOffset = - 1, processingDone = False\<rparr>"

definition example_cfg :: config where
  "example_cfg = \<lparr>Offsets_Initial = OffsetNewest, MaxProcessingTime = 30\<rparr>"

text \<open>
  A run of instance \<open>a\<close>: the first read of the owner fails, the second finds instance
  \<open>b\<close>, the third finds the partition free and the claim succeeds; the offset manager
  starts at the second attempt; offset 41 is committed; the consumer starts at once; the
  messages 42, 43 and 44 and one error are forwarded before the tomb dies; at the drain
  43 is committed and no acknowledgement of 44 arrives.
\<close>

definition example_env :: environment where
  "example_env =
     \<lparr>env_claim =
        [\<lparr>watch_owner = None, watch_err = Some (ErrOther ''zk''), claim_wake = Woken,
          claim_err = None\<rparr>,
         \<lparr>watch_owner = Some ''b'', watch_err = None, claim_wake = Woken, claim_err = None\<rparr>,
         \<lparr>watch_owner = None, watch_err = None, claim_wake = Woken, claim_err = None\<rparr>],
      env_manage =
        [\<lparr>manage_err = Some (ErrOther ''broker''), om_wake = Woken\<rparr>,
         \<lparr>manage_err = None, om_wake = Woken\<rparr>],
      env_committed = 41,
      env_consume = [\<lparr>consume_err = None, pc_wake = Woken\<rparr>],
      env_loop =
        [LoopMessage \<lparr>msg_offset = 42, msg_value = ''x''\<rparr> Woken,
         LoopMessage \<lparr>msg_offset = 43, msg_value = ''y''\<rparr> Woken,
         LoopConsumerError (ErrOther ''fetch'') Woken,
         LoopMessage \<lparr>msg_offset = 44, msg_value = ''z''\<rparr> Woken,
         LoopDying],
      env_drain = \<lparr>drain_committed = 43, closed_after = None, tie_takes_signal = False\<rparr>,
      env_close_err = None,
      env_release_err = None\<rparr>"

text \<open>The trace of that run, and the manager it leaves.\<close>

definition example_trace :: "event list" where
  "example_trace =
     [WatchPartitionOwner None (Some (ErrOther ''zk'')), Sleep1,
      WatchPartitionOwner (Some ''b'') None, WatchChanged,
      WatchPartitionOwner None None, ClaimPartition None,
      ManagePartition (Some (ErrOther ''broker'')), Sleep1,
      ManagePartition None, ConsumePartition 42 None,
      ForwardMessage \<lparr>msg_offset = 42, msg_value = ''x''\<rparr>, StoreLastConsumedOffset 42,
      ForwardMessage \<lparr>msg_offset = 43, msg_value = ''y''\<rparr>, StoreLastConsumedOffset 43,
      ForwardError (ErrOther ''fetch''),
      ForwardMessage \<lparr>msg_offset = 44, msg_value = ''z''\<rparr>, StoreLastConsumedOffset 44,
      ConsumerClose None, Drain (TimedOut 30), OffsetManagerClose,
      ReleasePartition None, TombDone]"

definition example_final :: partitionManager where
  "example_final =
     \<lparr>t_err = None, offsetManager = Some \<lparr>set_offsets = []\<rparr>,
      lastConsumedOffset = 44, processingDone = False\<rparr>"

text \<open>A run interrupted while it waits for instance \<open>b\<close> to release the partition.\<close>

definition interrupted_env :: environment where
  "interrupted_env =
     example_env\<lparr>env_claim :=
       [\<lparr>watch_owner = Some ''b'', watch_err = None, claim_wake = Interrupted,
         claim_err = None\<rparr>]\<rparr>"





text \<open>
  A run with no committed offset, interrupted in the dispatch loop before any message.
\<close>

definition uncommitted_env :: environment where
  "uncommitted_env =
     \<lparr>env_claim =
        [\<lparr>watch_owner = None, watch_err = None, claim_wake = Woken, claim_err = None\<rparr>],
      env_manage = [\<lparr>manage_err = None, om_wake = Woken\<rparr>],
      env_committed = - 1,
      env_consume = [\<lparr>consume_err = None, pc_wake = Woken\<rparr>],
      env_loop = [LoopDying],
      env_drain = \<lparr>drain_committed = - 1, closed_after = None, tie_takes_signal = False\<rparr>,
      env_close_err = None,
      env_release_err = None\<rparr>"

definition uncommitted_trace :: "event list" where
  "uncommitted_trace =
     [WatchPartitionOwner None None, ClaimPartition None, ManagePartition None,
      ConsumePartition OffsetNewest None, ConsumerClose None, Drain NothingConsumed,
      OffsetManagerClose, ReleasePartition None, TombDone]"

text \<open>
  A manager that is shutting down after \<open>interrupt\<close>, with 44 the last consumed offset
  and 43 acknowledged.
\<close>

definition draining_pm :: partitionManager where
  "draining_pm =
     \<lparr>t_err = None, offsetManager = Some \<lparr>set_offsets = [43]\<rparr>,
      lastConsumedOffset = 44, processingDone = False\<rparr>"

text \<open>Two answers of \<open>ConsumePartition\<close>: the offset is out of range; success.\<close>

definition out_of_range :: pc_iter where
  "out_of_range = \<lparr>consume_err = Some ErrOffsetOutOfRange, pc_wake = Woken\<rparr>"

definition consume_ok :: pc_iter where
  "consume_ok = \<lparr>consume_err = None, pc_wake = Woken\<rparr>"

section \<open>Properties\<close>

subsection \<open>Traces\<close>

lemma emit_None [simp]: "emit evs None = None"
  by (simp add: emit_def)

lemma emit_Some [simp]: "emit evs (Some (x, tr)) = Some (x, evs @ tr)"
  by (simp add: emit_def)

lemma emit_Nil [simp]: "emit [] r = r"
  by (cases r) (auto simp: emit_def)

lemma emit_eq_None [simp]: "emit evs r = None \<longleftrightarrow> r = None"
  by (simp add: emit_def)

lemma emit_eq_Some:
  "emit evs r = Some (x, tr) \<longleftrightarrow> (\<exists>tr'. r = Some (x, tr') \<and> tr = evs @ tr')"
  by (cases r) (auto simp: emit_def)

lemma emit_emit: "emit xs (emit ys r) = emit (xs @ ys) r"
  by (cases r) (auto simp: emit_def)

lemma run_steps_simps [simp]:
  "run_steps [] = []"
  "run_steps (e # tr) = (case run_step e of None \<Rightarrow> run_steps tr | Some k \<Rightarrow> k # run_steps tr)"
  "run_steps (xs @ ys) = run_steps xs @ run_steps ys"
  by (simp_all add: run_steps_def List.map_filter_def split: option.splits)

lemma consume_offsets_append [simp]:
  "consume_offsets (xs @ ys) = consume_offsets xs @ consume_offsets ys"
  by (induction xs rule: consume_offsets.induct) simp_all

lemma stored_offsets_append [simp]:
  "stored_offsets (xs @ ys) = stored_offsets xs @ stored_offsets ys"
  by (induction xs rule: stored_offsets.induct) simp_all

lemma forwarded_messages_append [simp]:
  "forwarded_messages (xs @ ys) = forwarded_messages xs @ forwarded_messages ys"
  by (induction xs rule: forwarded_messages.induct) simp_all

lemma sorted_constant: "set xs \<subseteq> {k} \<Longrightarrow> sorted (xs :: nat list)"
  by (induction xs) auto

lemma killed_dying: "killed ErrDying pm = Inr (interrupt pm)"
  by (auto simp: killed_def t_Kill_def interrupt_def kill_reason_def)

lemma killed_fields:
  "\<exists>pmk. killed err pm = Inr pmk
     \<and> offsetManager pmk = offsetManager pm
     \<and> lastConsumedOffset pmk = lastConsumedOffset pm
     \<and> processingDone pmk = processingDone pm"
  by (auto simp: killed_def t_Kill_def interrupt_def kill_reason_def)

lemma interrupt_fields [simp]:
  "offsetManager (interrupt pm) = offsetManager pm"
  "lastConsumedOffset (interrupt pm) = lastConsumedOffset pm"
  "processingDone (interrupt pm) = processingDone pm"
  by (simp_all add: interrupt_def)

lemma t_Done_fields [simp]:
  "offsetManager (t_Done pm) = offsetManager pm"
  "lastConsumedOffset (t_Done pm) = lastConsumedOffset pm"
  "processingDone (t_Done pm) = processingDone pm"
  by (simp_all add: t_Done_def)

lemma t_Done_not_alive: "t_err (t_Done pm) \<noteq> Some ErrStillAlive"
  by (simp add: t_Done_def kill_reason_def)

lemma waitForProcessing_bound:
  "offsetManager pm = Some om \<Longrightarrow> \<exists>out. waitForProcessing cfg pm env = Inr out"
  by (simp add: waitForProcessing_def Let_def split: option.splits)

lemma example_run: "run example_cfg ''a'' example_env fresh_pm = Some (example_final, example_trace)"
  by (simp add: run_def example_cfg_def example_env_def fresh_pm_def example_final_def
      example_trace_def resolveInitialOffset_def waitForProcessing_def OffsetNewest_def
      interrupt_def t_Done_def kill_reason_def)

lemma interrupted_run:
  "run example_cfg ''a'' interrupted_env fresh_pm =
     Some (fresh_pm\<lparr>t_err := None\<rparr>,
           [WatchPartitionOwner (Some ''b'') None, Kill ErrDying, TombDone])"
  by (simp add: run_def interrupted_env_def example_env_def fresh_pm_def
      killed_def t_Kill_def interrupt_def t_Done_def kill_reason_def)



lemma uncommitted_run:
  "run example_cfg ''a'' uncommitted_env fresh_pm
     = Some (fresh_pm\<lparr>t_err := None, offsetManager := Some \<lparr>set_offsets = []\<rparr>\<rparr>,
             uncommitted_trace)"
  by (simp add: run_def example_cfg_def uncommitted_env_def fresh_pm_def
      uncommitted_trace_def resolveInitialOffset_def waitForProcessing_def OffsetNewest_def
      interrupt_def t_Done_def kill_reason_def)

lemma claimPartition_trace:
  "claimPartition self cs = Some (res, tr) \<Longrightarrow>
     consume_offsets tr = [] \<and> stored_offsets tr = [] \<and> forwarded_messages tr = []
     \<and> set (run_steps tr) \<subseteq> {0}"
  by (induction cs arbitrary: tr)
     (auto simp: emit_eq_Some split: option.splits wake.splits if_splits)

lemma startPartitionOffsetManager_trace:
  "startPartitionOffsetManager ms = Some (res, tr) \<Longrightarrow>
     consume_offsets tr = [] \<and> stored_offsets tr = [] \<and> forwarded_messages tr = []
     \<and> set (run_steps tr) \<subseteq> {1}"
  by (induction ms arbitrary: tr)
     (auto simp: emit_eq_Some split: option.splits wake.splits if_splits)

lemma startPartitionConsumer_trace:
  "startPartitionConsumer cfg off cs = Some (res, tr) \<Longrightarrow>
     stored_offsets tr = [] \<and> forwarded_messages tr = [] \<and> set (run_steps tr) \<subseteq> {2}"
proof (induction cs arbitrary: tr off)
  case Nil
  then show ?case by simp
next
  case (Cons a as)
  show ?case
  proof (cases "consume_err a")
    case None
    with Cons.prems show ?thesis by auto
  next
    case (Some e)
    note ce = this
    show ?thesis
    proof (cases "e = ErrOffsetOutOfRange")
      case True
      with ce Cons.prems obtain tr' where
        r: "startPartitionConsumer cfg (Offsets_Initial cfg) as = Some (res, tr')"
        and t: "tr = ConsumePartition off (Some e) # tr'"
        by (auto simp: emit_eq_Some)
      from Cons.IH [OF r] show ?thesis
        unfolding t by simp
    next
      case False
      note ne = this
      show ?thesis
      proof (cases "pc_wake a")
        case Interrupted
        with ce ne Cons.prems show ?thesis by auto
      next
        case Woken
        with ce ne Cons.prems obtain tr' where
          r: "startPartitionConsumer cfg off as = Some (res, tr')"
          and t: "tr = ConsumePartition off (Some e) # Sleep1 # tr'"
          by (auto simp: emit_eq_Some)
        from Cons.IH [OF r] show ?thesis
          unfolding t by simp
      qed
    qed
  qed
qed

lemma startPartitionConsumer_first_offset:
  "startPartitionConsumer cfg off cs = Some (res, tr) \<Longrightarrow> \<exists>rest. consume_offsets tr = off # rest"
  by (cases cs) (auto simp: emit_eq_Some split: option.splits wake.splits if_splits)

lemma consumeLoop_trace:
  "consumeLoop pm es = Some (pm', tr) \<Longrightarrow>
     consume_offsets tr = [] \<and> set (run_steps tr) \<subseteq> {3}
     \<and> stored_offsets tr = map msg_offset (forwarded_messages tr)
     \<and> lastConsumedOffset pm' = last (lastConsumedOffset pm # stored_offsets tr)
     \<and> offsetManager pm' = offsetManager pm"
proof (induction pm es arbitrary: tr rule: consumeLoop.induct)
  case (1 pm)
  then show ?case by simp
next
  case (2 pm es)
  then show ?case by simp
next
  case (3 pm msg w es)
  then show ?case by (cases w) (auto simp: emit_eq_Some)
next
  case (4 pm err w es)
  then show ?case by (cases w) (auto simp: emit_eq_Some)
next
  case (5 pm err w es)
  then show ?case by (cases w) (auto simp: emit_eq_Some)
qed

lemma consumeLoop_monotone:
  "consumeLoop pm es = Some (pm', tr) \<Longrightarrow>
   sorted (map sint (lastConsumedOffset pm # delivered es)) \<Longrightarrow>
   sorted (map sint (lastConsumedOffset pm # stored_offsets tr))"
proof (induction pm es arbitrary: tr rule: consumeLoop.induct)
  case (1 pm)
  then show ?case by simp
next
  case (2 pm es)
  then show ?case by simp
next
  case (3 pm msg w es)
  show ?case
  proof (cases w)
    case Interrupted
    with "3.prems" show ?thesis by simp
  next
    case Woken
    with "3.prems" obtain tr' where
      r: "consumeLoop (pm\<lparr>lastConsumedOffset := msg_offset msg\<rparr>) es = Some (pm', tr')"
      and t: "tr = [ForwardMessage msg, StoreLastConsumedOffset (msg_offset msg)] @ tr'"
      by (auto simp: emit_eq_Some)
    from "3.prems"(2) have le: "sint (lastConsumedOffset pm) \<le> sint (msg_offset msg)"
      and rest: "sorted (map sint (msg_offset msg # delivered es))"
      by simp_all
    from "3.IH" [OF Woken r] rest
    have "sorted (map sint (msg_offset msg # stored_offsets tr'))" by simp
    with le show ?thesis unfolding t by auto
  qed
next
  case (4 pm err w es)
  then show ?case by (cases w) (auto simp: emit_eq_Some)
next
  case (5 pm err w es)
  then show ?case by (cases w) (auto simp: emit_eq_Some)
qed

lemma run_cases [consumes 1, case_names claim_failed manage_failed consume_failed completed]:
  assumes "run cfg self env pm = Some (pm', tr)"
  obtains
    err tr1 where
      "claimPartition self (env_claim env) = Some (Some err, tr1)"
      "offsetManager pm' = offsetManager pm"
      "lastConsumedOffset pm' = lastConsumedOffset pm"
      "tr = tr1 @ [Kill err, TombDone]"
      "t_err pm' \<noteq> Some ErrStillAlive"
  | tr1 err tr2 where
      "claimPartition self (env_claim env) = Some (None, tr1)"
      "startPartitionOffsetManager (env_manage env) = Some (Inl err, tr2)"
      "offsetManager pm' = offsetManager pm"
      "lastConsumedOffset pm' = lastConsumedOffset pm"
      "tr = tr1 @ tr2 @ [Kill err, ReleasePartition (env_release_err env), TombDone]"
      "t_err pm' \<noteq> Some ErrStillAlive"
  | tr1 om tr2 err tr3 out where
      "claimPartition self (env_claim env) = Some (None, tr1)"
      "startPartitionOffsetManager (env_manage env) = Some (Inr om, tr2)"
      "startPartitionConsumer cfg (resolveInitialOffset cfg (env_committed env))
         (env_consume env) = Some (Inl err, tr3)"
      "offsetManager pm' = Some om"
      "lastConsumedOffset pm' = lastConsumedOffset pm"
      "tr = tr1 @ tr2 @ tr3 @
         [Kill err, Drain out,
          OffsetManagerClose, ReleasePartition (env_release_err env), TombDone]"
      "t_err pm' \<noteq> Some ErrStillAlive"
  | tr1 om tr2 pc tr3 pm2 tr4 out where
      "claimPartition self (env_claim env) = Some (None, tr1)"
      "startPartitionOffsetManager (env_manage env) = Some (Inr om, tr2)"
      "startPartitionConsumer cfg (resolveInitialOffset cfg (env_committed env))
         (env_consume env) = Some (Inr pc, tr3)"
      "consumeLoop (pm\<lparr>offsetManager := Some om\<rparr>) (env_loop env) = Some (pm2, tr4)"
      "pm' = t_Done (interrupt pm2)"
      "tr = tr1 @ tr2 @ tr3 @ tr4 @
         [ConsumerClose (env_close_err env), Drain out,
          OffsetManagerClose, ReleasePartition (env_release_err env), TombDone]"
proof (cases "claimPartition self (env_claim env)")
  case None
  with assms show ?thesis by (simp add: run_def)
next
  case (Some c)
  obtain res tr1 where c: "claimPartition self (env_claim env) = Some (res, tr1)"
    using Some by (cases c) simp
  show ?thesis
  proof (cases res)
    case (Some err)
    from killed_fields [of err pm] obtain pmk where k: "killed err pm = Inr pmk"
      and f: "offsetManager pmk = offsetManager pm"
        "lastConsumedOffset pmk = lastConsumedOffset pm" by blast
    from assms c Some k have "pm' = t_Done pmk" "tr = tr1 @ [Kill err, TombDone]"
      by (simp_all add: run_def)
    with c Some f show ?thesis
      by (intro that(1) [of err tr1]) (simp_all add: t_Done_not_alive)
  next
    case None
    note claimed = c [unfolded None]
    show ?thesis
    proof (cases "startPartitionOffsetManager (env_manage env)")
      case None
      with assms claimed show ?thesis by (simp add: run_def)
    next
      case (Some m)
      obtain r2 tr2 where m: "startPartitionOffsetManager (env_manage env) = Some (r2, tr2)"
        using Some by (cases m) simp
      show ?thesis
      proof (cases r2)
        case (Inl err)
        from killed_fields [of err pm] obtain pmk where k: "killed err pm = Inr pmk"
          and f: "offsetManager pmk = offsetManager pm"
            "lastConsumedOffset pmk = lastConsumedOffset pm" by blast
        from assms claimed m Inl k have "pm' = t_Done pmk"
          "tr = tr1 @ tr2 @ [Kill err, ReleasePartition (env_release_err env), TombDone]"
          by (simp_all add: run_def)
        with claimed m Inl f show ?thesis
          by (intro that(2) [of tr1 err tr2]) (simp_all add: t_Done_not_alive)
      next
        case (Inr om)
        note managed = m [unfolded Inr]
        let ?pm1 = "pm\<lparr>offsetManager := Some om\<rparr>"
        let ?off = "resolveInitialOffset cfg (env_committed env)"
        show ?thesis
        proof (cases "startPartitionConsumer cfg ?off (env_consume env)")
          case None
          with assms claimed managed show ?thesis by (simp add: run_def)
        next
          case (Some d)
          obtain r3 tr3 where d: "startPartitionConsumer cfg ?off (env_consume env) = Some (r3, tr3)"
            using Some by (cases d) simp
          show ?thesis
          proof (cases r3)
            case (Inl err)
            from killed_fields [of err ?pm1] obtain pmk where k: "killed err ?pm1 = Inr pmk"
              and f: "offsetManager pmk = Some om"
                "lastConsumedOffset pmk = lastConsumedOffset pm" by auto
            from waitForProcessing_bound [OF f(1)] obtain out where
              w: "waitForProcessing cfg pmk (env_drain env) = Inr out" by blast
            from assms claimed managed d Inl k w have "pm' = t_Done pmk"
              "tr = tr1 @ tr2 @ tr3 @
                 [Kill err, Drain out,
                  OffsetManagerClose, ReleasePartition (env_release_err env), TombDone]"
              by (simp_all add: run_def)
            with claimed managed d Inl f show ?thesis
              by (intro that(3) [of tr1 om tr2 err tr3 out]) (simp_all add: t_Done_not_alive)
          next
            case (Inr pc)
            note started = d [unfolded Inr]
            show ?thesis
            proof (cases "consumeLoop ?pm1 (env_loop env)")
              case None
              with assms claimed managed started show ?thesis by (simp add: run_def)
            next
              case (Some l)
              obtain pm2 tr4 where l: "consumeLoop ?pm1 (env_loop env) = Some (pm2, tr4)"
                using Some by (cases l) simp
              from consumeLoop_trace [OF l] have "offsetManager (interrupt pm2) = Some om"
                by simp
              from waitForProcessing_bound [OF this] obtain out where
                w: "waitForProcessing cfg (interrupt pm2) (env_drain env) = Inr out" by blast
              from assms claimed managed started l w have "pm' = t_Done (interrupt pm2)"
                "tr = tr1 @ tr2 @ tr3 @ tr4 @
                   [ConsumerClose (env_close_err env), Drain out,
                    OffsetManagerClose, ReleasePartition (env_release_err env), TombDone]"
                by (simp_all add: run_def)
              with claimed managed started l show ?thesis
                by (intro that(4) [of tr1 om tr2 pc tr3 pm2 tr4 out]) simp_all
            qed
          qed
        qed
      qed
    qed
  qed
qed

text \<open>When \<open>run\<close> has returned the tomb is no longer alive.\<close>

lemma run_tomb_dead:
  assumes "run cfg self env pm = Some (pm', tr)"
  shows "t_err pm' \<noteq> Some ErrStillAlive"
  using assms by (cases rule: run_cases) (simp_all add: t_Done_not_alive)

lemma sorted_after_constant:
  "set xs \<subseteq> {k} \<Longrightarrow> sorted ys \<and> (\<forall>y \<in> set ys. k \<le> y) \<Longrightarrow> j \<le> k \<Longrightarrow>
     sorted (xs @ ys) \<and> (\<forall>y \<in> set (xs @ ys). (j::nat) \<le> y)"
  by (auto simp: sorted_append intro: sorted_constant)

lemma acquired_append [simp]: "acquired r (xs @ ys) = acquired r xs + acquired r ys"
  by (simp add: acquired_def)

lemma released_append [simp]: "released r (xs @ ys) = released r xs + released r ys"
  by (simp add: released_def)

lemma acquired_Nil [simp]: "acquired r [] = 0"
  by (simp add: acquired_def)

lemma released_Nil [simp]: "released r [] = 0"
  by (simp add: released_def)

lemma acquired_Cons [simp]: "acquired r (e # tr) = (if acquires r e then 1 else 0) + acquired r tr"
  by (simp add: acquired_def)

lemma released_Cons [simp]: "released r (e # tr) = (if releases r e then 1 else 0) + released r tr"
  by (simp add: released_def)


lemma startPartitionOffsetManager_resources:
  "startPartitionOffsetManager ms = Some (res, tr) \<Longrightarrow>
     acquired r tr = (if r = OffsetHandle \<and> \<not> isl res then 1 else 0) \<and> released r tr = 0"
proof (induction ms arbitrary: tr)
  case Nil
  then show ?case by simp
next
  case (Cons a as)
  then show ?case
    by (cases r) (auto simp: emit_eq_Some split: option.splits wake.splits if_splits)
qed



lemma out_of_range_failures_simps [simp]:
  "out_of_range_failures [] = 0"
  "out_of_range_failures (e # tr) =
     (if failed_open e = Some ErrOffsetOutOfRange then 1 else 0) + out_of_range_failures tr"
  "out_of_range_failures (xs @ ys) = out_of_range_failures xs + out_of_range_failures ys"
  by (simp_all add: out_of_range_failures_def)

subsection \<open>Facts about claimPartition\<close>

lemma claimPartition_nonempty:
  "claimPartition self cs = Some (res, tr) \<Longrightarrow> tr \<noteq> []"
  by (cases cs) (auto simp: emit_eq_Some split: option.splits wake.splits if_splits)

lemma claimPartition_errors:
  "claimPartition self cs = Some (res, tr) \<Longrightarrow>
     res = None \<or> res = Some ErrDying \<or> res = Some ErrAlreadyOwner"
  by (induction cs arbitrary: tr)
     (auto simp: emit_eq_Some split: option.splits wake.splits if_splits)

lemma claimPartition_owner_read:
  "claimPartition self cs = Some (res, tr) \<Longrightarrow>
     (res = Some ErrAlreadyOwner \<longleftrightarrow> WatchPartitionOwner (Some self) None \<in> set tr)"
  by (induction cs arbitrary: tr)
     (auto simp: emit_eq_Some split: option.splits wake.splits if_splits)

lemma claimPartition_owner_read_last:
  "claimPartition self cs = Some (Some ErrAlreadyOwner, tr) \<Longrightarrow>
     last tr = WatchPartitionOwner (Some self) None
     \<and> WatchPartitionOwner (Some self) None \<notin> set (butlast tr)"
proof (induction cs arbitrary: tr)
  case Nil
  then show ?case by simp
next
  case (Cons a as)
  then show ?case
    by (auto simp: emit_eq_Some dest: claimPartition_nonempty
          split: option.splits wake.splits if_splits)
qed

subsection \<open>Facts about the startup helpers\<close>

lemma startPartitionOffsetManager_nonempty:
  "startPartitionOffsetManager ms = Some (res, tr) \<Longrightarrow> \<exists>err tr'. tr = ManagePartition err # tr'"
  by (cases ms) (auto simp: emit_eq_Some split: option.splits wake.splits if_splits)

lemma startPartitionConsumer_nonempty:
  "startPartitionConsumer cfg off cs = Some (res, tr) \<Longrightarrow> \<exists>err tr'. tr = ConsumePartition off err # tr'"
  by (cases cs) (auto simp: emit_eq_Some split: option.splits wake.splits if_splits)

lemma startPartitionOffsetManager_result:
  "startPartitionOffsetManager ms = Some (res, tr) \<Longrightarrow> res = Inl ErrDying \<or> (\<exists>h. res = Inr h)"
  by (induction ms arbitrary: tr)
     (auto simp: emit_eq_Some split: option.splits wake.splits if_splits)

lemma startPartitionConsumer_result:
  "startPartitionConsumer cfg off cs = Some (res, tr) \<Longrightarrow> res = Inl ErrDying \<or> (\<exists>h. res = Inr h)"
  by (induction cs arbitrary: tr off)
     (auto simp: emit_eq_Some split: option.splits wake.splits if_splits)

lemma startPartitionOffsetManager_delayed:
  "startPartitionOffsetManager ms = Some (res, tr) \<Longrightarrow> retries_delayed no_exemption tr"
proof (induction ms arbitrary: tr)
  case Nil
  then show ?case by simp
next
  case (Cons a as)
  show ?case
  proof (cases "manage_err a")
    case None
    with Cons.prems show ?thesis by auto
  next
    case (Some e)
    note me = this
    show ?thesis
    proof (cases "om_wake a")
      case Interrupted
      with me Cons.prems show ?thesis by auto
    next
      case Woken
      with me Cons.prems obtain tr' where
        r: "startPartitionOffsetManager as = Some (res, tr')"
        and t: "tr = ManagePartition (Some e) # Sleep1 # tr'"
        by (auto simp: emit_eq_Some)
      from startPartitionOffsetManager_nonempty [OF r] obtain err tr'' where
        t': "tr' = ManagePartition err # tr''" by blast
      from Cons.IH [OF r] show ?thesis
        unfolding t t' by simp
    qed
  qed
qed

lemma startPartitionConsumer_delayed:
  "startPartitionConsumer cfg off cs = Some (res, tr) \<Longrightarrow> retries_delayed is_out_of_range tr"
proof (induction cs arbitrary: tr off)
  case Nil
  then show ?case by simp
next
  case (Cons a as)
  show ?case
  proof (cases "consume_err a")
    case None
    with Cons.prems show ?thesis by auto
  next
    case (Some e)
    note ce = this
    show ?thesis
    proof (cases "e = ErrOffsetOutOfRange")
      case True
      with ce Cons.prems obtain tr' where
        r: "startPartitionConsumer cfg (Offsets_Initial cfg) as = Some (res, tr')"
        and t: "tr = ConsumePartition off (Some e) # tr'"
        by (auto simp: emit_eq_Some)
      from startPartitionConsumer_nonempty [OF r] obtain err tr'' where
        t': "tr' = ConsumePartition (Offsets_Initial cfg) err # tr''" by blast
      from Cons.IH [OF r] True show ?thesis
        unfolding t t' by (simp add: is_out_of_range_def)
    next
      case False
      note ne = this
      show ?thesis
      proof (cases "pc_wake a")
        case Interrupted
        with ce ne Cons.prems show ?thesis by auto
      next
        case Woken
        with ce ne Cons.prems obtain tr' where
          r: "startPartitionConsumer cfg off as = Some (res, tr')"
          and t: "tr = ConsumePartition off (Some e) # Sleep1 # tr'"
          by (auto simp: emit_eq_Some)
        from startPartitionConsumer_nonempty [OF r] obtain err tr'' where
          t': "tr' = ConsumePartition off err # tr''" by blast
        from Cons.IH [OF r] show ?thesis
          unfolding t t' by simp
      qed
    qed
  qed
qed

lemma startPartitionConsumer_out_of_range_step:
  "consume_err a = Some ErrOffsetOutOfRange \<Longrightarrow>
   startPartitionConsumer cfg off (a # as) =
     emit [ConsumePartition off (Some ErrOffsetOutOfRange)]
       (startPartitionConsumer cfg (Offsets_Initial cfg) as)"
  by simp

lemma startPartitionConsumer_out_of_range_again:
  "\<forall>a \<in> set pre. consume_err a = Some ErrOffsetOutOfRange \<Longrightarrow>
   startPartitionConsumer cfg (Offsets_Initial cfg) (pre @ rest) =
     emit (replicate (length pre)
             (ConsumePartition (Offsets_Initial cfg) (Some ErrOffsetOutOfRange)))
       (startPartitionConsumer cfg (Offsets_Initial cfg) rest)"
proof (induction pre)
  case Nil
  show ?case by simp
next
  case (Cons a pre)
  let ?ev = "ConsumePartition (Offsets_Initial cfg) (Some ErrOffsetOutOfRange)"
  from Cons.prems have a: "consume_err a = Some ErrOffsetOutOfRange"
    and pre: "\<forall>a \<in> set pre. consume_err a = Some ErrOffsetOutOfRange"
    by simp_all
  have "startPartitionConsumer cfg (Offsets_Initial cfg) ((a # pre) @ rest) =
          emit [?ev] (startPartitionConsumer cfg (Offsets_Initial cfg) (pre @ rest))"
    using startPartitionConsumer_out_of_range_step [OF a] by simp
  also have "\<dots> = emit [?ev] (emit (replicate (length pre) ?ev)
                       (startPartitionConsumer cfg (Offsets_Initial cfg) rest))"
    using Cons.IH [OF pre] by simp
  also have "\<dots> = emit (replicate (length (a # pre)) ?ev)
                       (startPartitionConsumer cfg (Offsets_Initial cfg) rest)"
    by (simp add: emit_emit)
  finally show ?case .
qed

text \<open>As long as the broker answers \<open>ErrOffsetOutOfRange\<close>, the loop does not return.\<close>

lemma startPartitionConsumer_out_of_range_forever:
  "\<forall>a \<in> set cs. consume_err a = Some ErrOffsetOutOfRange \<Longrightarrow>
   startPartitionConsumer cfg off cs = None"
  by (induction cs arbitrary: off) simp_all


subsection \<open>When the loops return\<close>





lemma killed_no_panic [simp]: "killed err pm \<noteq> Inl p"
  using killed_fields [of err pm] by auto





subsection \<open>The startup helpers against their wording\<close>

lemma startPartitionOffsetManager_spec:
  "startPartitionOffsetManager ms = spec_startPartitionOffsetManager ms"
proof (induction ms)
  case Nil
  show ?case by (simp add: spec_startPartitionOffsetManager_def)
next
  case (Cons a as)
  show ?case
  proof (cases "manage_retried a")
    case True
    then obtain e where e: "manage_err a = Some e" and w: "om_wake a = Woken"
      by (auto simp: manage_retried_def)
    have "startPartitionOffsetManager (a # as)
            = emit [ManagePartition (Some e), Sleep1] (spec_startPartitionOffsetManager as)"
      using e w Cons.IH by simp
    also have "\<dots> = spec_startPartitionOffsetManager (a # as)"
      using True e
      by (simp add: spec_startPartitionOffsetManager_def del: dropWhile_eq_Nil_conv
            split: list.splits)
    finally show ?thesis .
  next
    case False
    then show ?thesis
      by (cases "om_wake a")
        (auto simp: spec_startPartitionOffsetManager_def manage_retried_def
           split: option.splits)
  qed
qed

lemma offset_after_simps [simp]:
  "offset_after cfg off [] = off"
  "offset_after cfg off (b # bs) =
     (if consume_err b = Some ErrOffsetOutOfRange then Offsets_Initial cfg
      else offset_after cfg off bs)"
  "offset_after cfg (Offsets_Initial cfg) bs = Offsets_Initial cfg"
  by (simp_all add: offset_after_def)

lemma startPartitionConsumer_spec:
  "startPartitionConsumer cfg off cs = spec_startPartitionConsumer cfg off cs"
proof (induction cs arbitrary: off)
  case Nil
  show ?case by (simp add: spec_startPartitionConsumer_def)
next
  case (Cons a as)
  show ?case
  proof (cases "consume_retried a")
    case False
    then show ?thesis
      by (cases "pc_wake a")
        (auto simp: spec_startPartitionConsumer_def consume_retried_def
           split: option.splits)
  next
    case True
    show ?thesis
    proof (cases "consume_err a = Some ErrOffsetOutOfRange")
      case oor: True
      have "startPartitionConsumer cfg off (a # as)
              = emit [ConsumePartition off (Some ErrOffsetOutOfRange)]
                  (spec_startPartitionConsumer cfg (Offsets_Initial cfg) as)"
        using oor Cons.IH by simp
      also have "\<dots> = spec_startPartitionConsumer cfg off (a # as)"
        using True oor
        by (simp add: spec_startPartitionConsumer_def Let_def del: dropWhile_eq_Nil_conv
              split: list.splits)
      finally show ?thesis .
    next
      case other: False
      with True obtain e where e: "consume_err a = Some e" "e \<noteq> ErrOffsetOutOfRange"
        and w: "pc_wake a = Woken"
        by (auto simp: consume_retried_def)
      have "startPartitionConsumer cfg off (a # as)
              = emit [ConsumePartition off (Some e), Sleep1]
                  (spec_startPartitionConsumer cfg off as)"
        using e w Cons.IH by simp
      also have "\<dots> = spec_startPartitionConsumer cfg off (a # as)"
        using True e
        by (simp add: spec_startPartitionConsumer_def Let_def del: dropWhile_eq_Nil_conv
              split: list.splits)
      finally show ?thesis .
    qed
  qed
qed

lemma startPartitionOffsetManager_dying:
  "startPartitionOffsetManager ms = Some (Inl err, tr) \<Longrightarrow>
     \<exists>a \<in> set ms. manage_err a \<noteq> None \<and> om_wake a = Interrupted"
  by (induction ms arbitrary: tr)
     (auto simp: emit_eq_Some split: option.splits wake.splits)

lemma startPartitionConsumer_dying:
  "startPartitionConsumer cfg off cs = Some (Inl err, tr) \<Longrightarrow>
     \<exists>a \<in> set cs. consume_err a \<noteq> None \<and> consume_err a \<noteq> Some ErrOffsetOutOfRange
        \<and> pc_wake a = Interrupted"
proof (induction cs arbitrary: tr off)
  case Nil
  then show ?case by simp
next
  case (Cons a as)
  show ?case
  proof (cases "consume_err a")
    case None
    with Cons.prems show ?thesis by simp
  next
    case (Some e)
    show ?thesis
    proof (cases "e = ErrOffsetOutOfRange")
      case True
      with Some Cons.prems obtain tr' where
        "startPartitionConsumer cfg (Offsets_Initial cfg) as = Some (Inl err, tr')"
        by (auto simp: emit_eq_Some)
      from Cons.IH [OF this] show ?thesis by auto
    next
      case False
      show ?thesis
      proof (cases "pc_wake a")
        case Interrupted
        with Some False show ?thesis by auto
      next
        case Woken
        with Some False Cons.prems obtain tr' where
          "startPartitionConsumer cfg off as = Some (Inl err, tr')"
          by (auto simp: emit_eq_Some)
        from Cons.IH [OF this] show ?thesis by auto
      qed
    qed
  qed
qed

subsection \<open>Falling back when the policy offset is accepted\<close>

lemma out_of_range_failures_none:
  "\<forall>e \<in> set tr. failed_open e \<noteq> Some ErrOffsetOutOfRange \<Longrightarrow> out_of_range_failures tr = 0"
  by (induction tr) auto

lemma startPartitionConsumer_at_policy:
  "startPartitionConsumer cfg (Offsets_Initial cfg) cs = Some (res, tr) \<Longrightarrow>
   e \<in> set tr \<Longrightarrow> failed_open e = Some ErrOffsetOutOfRange \<Longrightarrow>
   e = ConsumePartition (Offsets_Initial cfg) (Some ErrOffsetOutOfRange)"
  by (induction cs arbitrary: tr)
     (auto simp: emit_eq_Some split: option.splits wake.splits if_splits)

text \<open>
  When the broker never answers \<open>ErrOffsetOutOfRange\<close> to the configured initial offset,
  there is at most one fallback.
\<close>

lemma one_fallback_if_policy_accepted:
  "startPartitionConsumer cfg off cs = Some (res, tr) \<Longrightarrow>
   ConsumePartition (Offsets_Initial cfg) (Some ErrOffsetOutOfRange) \<notin> set tr \<Longrightarrow>
   out_of_range_failures tr \<le> 1"
proof (induction cs arbitrary: tr off)
  case Nil
  then show ?case by simp
next
  case (Cons a as)
  show ?case
  proof (cases "consume_err a")
    case None
    with Cons.prems show ?thesis by auto
  next
    case (Some e)
    show ?thesis
    proof (cases "e = ErrOffsetOutOfRange")
      case True
      with Some Cons.prems(1) obtain tr' where
        r: "startPartitionConsumer cfg (Offsets_Initial cfg) as = Some (res, tr')"
        and t: "tr = ConsumePartition off (Some e) # tr'"
        by (auto simp: emit_eq_Some)
      have "\<forall>x \<in> set tr'. failed_open x \<noteq> Some ErrOffsetOutOfRange"
        using startPartitionConsumer_at_policy [OF r] Cons.prems(2) t by auto
      from out_of_range_failures_none [OF this] show ?thesis
        unfolding t by simp
    next
      case False
      show ?thesis
      proof (cases "pc_wake a")
        case Interrupted
        with Some False Cons.prems(1) show ?thesis by auto
      next
        case Woken
        with Some False Cons.prems(1) obtain tr' where
          r: "startPartitionConsumer cfg off as = Some (res, tr')"
          and t: "tr = ConsumePartition off (Some e) # Sleep1 # tr'"
          by (auto simp: emit_eq_Some)
        from Cons.IH [OF r] Cons.prems(2) False show ?thesis
          unfolding t by simp
      qed
    qed
  qed
qed


subsection \<open>Resources\<close>



subsection \<open>Acknowledgement\<close>

lemma ack_only_persists:
  assumes "offsetManager pm = Some om"
    and "t_err pm = Some ErrStillAlive \<or> off \<noteq> lastConsumedOffset pm"
  shows "ack pm off = Inr (pm\<lparr>offsetManager := Some (SetOffset om off)\<rparr>)"
  using assms by (auto simp: ack_def)

lemma ack_closes_signal:
  assumes "offsetManager pm = Some om" and "t_err pm \<noteq> Some ErrStillAlive"
    and "off = lastConsumedOffset pm" and "\<not> processingDone pm"
  shows "ack pm off =
           Inr (pm\<lparr>offsetManager := Some (SetOffset om off), processingDone := True\<rparr>)"
  using assms by (simp add: ack_def)

text \<open>
  C2. The claim says that \<open>ack\<close> after the completion signal is closed only persists the
  offset, so that the signal is closed at most once. The source closes the channel
  whenever the tomb is no longer alive and the offset is the last consumed one, without
  looking whether it is closed already: the second \<open>ack\<close> of the last consumed offset
  during shutdown closes a closed channel, which panics.
\<close>

theorem ack_twice_panics:
  "ack draining_pm 44 =
     Inr (draining_pm\<lparr>offsetManager := Some \<lparr>set_offsets = [44, 43]\<rparr>,
                        processingDone := True\<rparr>)
   \<and> ack (draining_pm\<lparr>offsetManager := Some \<lparr>set_offsets = [44, 43]\<rparr>,
                        processingDone := True\<rparr>) 44
       = Inl CloseOfClosedChannel"
  by (simp add: ack_def draining_pm_def SetOffset_def)

text \<open>
  C10. \<open>ack\<close> on a manager whose offset manager handle is not bound panics with a nil
  dereference; \<open>ack\<close> returns only on a manager whose handle is bound. A manager that
  starts with no handle has none when \<open>run\<close> returns without having opened one.
\<close>

theorem ack_before_bound_panics:
  "(offsetManager pm = None \<longrightarrow> ack pm off = Inl NilDereference)
   \<and> (ack pm off = Inr pm1 \<longrightarrow> offsetManager pm \<noteq> None)
   \<and> (offsetManager pm = None \<and> run cfg self env pm = Some (pm', tr)
        \<and> acquired OffsetHandle tr = 0
        \<longrightarrow> ack pm' off = Inl NilDereference)"
proof (intro conjI impI)
  assume "offsetManager pm = None"
  then show "ack pm off = Inl NilDereference" by (simp add: ack_def)
next
  assume "ack pm off = Inr pm1"
  then show "offsetManager pm \<noteq> None" by (auto simp: ack_def split: option.splits)
next
  assume a: "offsetManager pm = None \<and> run cfg self env pm = Some (pm', tr)
        \<and> acquired OffsetHandle tr = 0"
  then have r: "run cfg self env pm = Some (pm', tr)" by simp
  from r have "offsetManager pm' = None"
  proof (cases rule: run_cases)
    case (claim_failed err tr1)
    with a show ?thesis by simp
  next
    case (manage_failed tr1 err tr2)
    with a show ?thesis by simp
  next
    case (consume_failed tr1 om tr2 err tr3 out)
    from startPartitionOffsetManager_resources [OF consume_failed(2), of OffsetHandle]
    have "acquired OffsetHandle tr = acquired OffsetHandle tr1 + 1 + acquired OffsetHandle tr3"
      unfolding consume_failed(6) by simp
    with a show ?thesis by simp
  next
    case (completed tr1 om tr2 pc tr3 pm2 tr4 out)
    from startPartitionOffsetManager_resources [OF completed(2), of OffsetHandle]
    have "acquired OffsetHandle tr
            = acquired OffsetHandle tr1 + 1 + acquired OffsetHandle tr3 + acquired OffsetHandle tr4"
      unfolding completed(6) by simp
    with a show ?thesis by simp
  qed
  then show "ack pm' off = Inl NilDereference" by (simp add: ack_def)
qed

theorem ack_before_bound_panics_witness:
  "offsetManager fresh_pm = None
   \<and> ack fresh_pm 42 = Inl NilDereference
   \<and> run example_cfg ''a'' interrupted_env fresh_pm
        = Some (fresh_pm\<lparr>t_err := None\<rparr>,
                [WatchPartitionOwner (Some ''b'') None, Kill ErrDying, TombDone])
   \<and> acquired OffsetHandle [WatchPartitionOwner (Some ''b'') None, Kill ErrDying, TombDone] = 0
   \<and> ack (fresh_pm\<lparr>t_err := None\<rparr>) 42 = Inl NilDereference
   \<and> ack draining_pm 7 = Inr (draining_pm\<lparr>offsetManager := Some \<lparr>set_offsets = [7, 43]\<rparr>\<rparr>)
   \<and> offsetManager draining_pm \<noteq> None"
  using interrupted_run
    ack_before_bound_panics [of fresh_pm 42 fresh_pm example_cfg "''a''" interrupted_env
      "fresh_pm\<lparr>t_err := None\<rparr>"
      "[WatchPartitionOwner (Some ''b'') None, Kill ErrDying, TombDone]"]
    ack_before_bound_panics [of draining_pm 7
      "draining_pm\<lparr>offsetManager := Some \<lparr>set_offsets = [7, 43]\<rparr>\<rparr>"]
  by (simp add: fresh_pm_def draining_pm_def ack_def SetOffset_def)

subsection \<open>Claiming\<close>

text \<open>
  C7. A read of the owner that succeeds and returns this instance makes
  \<open>claimPartition\<close> return the fatal error at once, whatever would follow. When
  \<open>claimPartition\<close> returns, it returns \<open>nil\<close>, \<open>ErrDying\<close> or the fatal error; it
  returns the fatal error exactly when such a read occurred, and that read is then the
  last thing it did and the only read of that kind.
\<close>

theorem claimPartition_self_owner_fatal:
  "(watch_err a = None \<and> watch_owner a = Some self \<longrightarrow>
      claimPartition self (a # as)
        = Some (Some ErrAlreadyOwner, [WatchPartitionOwner (Some self) None]))
   \<and> (claimPartition self cs = Some (res, tr) \<longrightarrow>
        (res = None \<or> res = Some ErrDying \<or> res = Some ErrAlreadyOwner)
        \<and> (res = Some ErrAlreadyOwner \<longleftrightarrow> WatchPartitionOwner (Some self) None \<in> set tr)
        \<and> (res = Some ErrAlreadyOwner \<longrightarrow>
              last tr = WatchPartitionOwner (Some self) None
              \<and> WatchPartitionOwner (Some self) None \<notin> set (butlast tr)))"
proof (intro conjI impI)
  assume "watch_err a = None \<and> watch_owner a = Some self"
  then show "claimPartition self (a # as)
        = Some (Some ErrAlreadyOwner, [WatchPartitionOwner (Some self) None])"
    by simp
next
  assume r: "claimPartition self cs = Some (res, tr)"
  show "res = None \<or> res = Some ErrDying \<or> res = Some ErrAlreadyOwner"
    by (rule claimPartition_errors [OF r])
  show "res = Some ErrAlreadyOwner \<longleftrightarrow> WatchPartitionOwner (Some self) None \<in> set tr"
    by (rule claimPartition_owner_read [OF r])
  {
    assume "res = Some ErrAlreadyOwner"
    with r have r': "claimPartition self cs = Some (Some ErrAlreadyOwner, tr)" by simp
    from claimPartition_owner_read_last [OF r']
    show "last tr = WatchPartitionOwner (Some self) None" by simp
    from claimPartition_owner_read_last [OF r']
    show "WatchPartitionOwner (Some self) None \<notin> set (butlast tr)" by simp
  }
qed

theorem claimPartition_self_owner_fatal_witness:
  "claimPartition ''a''
     [\<lparr>watch_owner = None, watch_err = Some (ErrOther ''zk''), claim_wake = Woken,
       claim_err = None\<rparr>,
      \<lparr>watch_owner = Some ''a'', watch_err = None, claim_wake = Woken, claim_err = None\<rparr>,
      \<lparr>watch_owner = None, watch_err = None, claim_wake = Woken, claim_err = None\<rparr>]
   = Some (Some ErrAlreadyOwner,
       [WatchPartitionOwner None (Some (ErrOther ''zk'')), Sleep1,
        WatchPartitionOwner (Some ''a'') None])
   \<and> claimPartition ''a''
       [\<lparr>watch_owner = Some ''a'', watch_err = None, claim_wake = Woken, claim_err = None\<rparr>,
        \<lparr>watch_owner = None, watch_err = None, claim_wake = Woken, claim_err = None\<rparr>]
     = Some (Some ErrAlreadyOwner, [WatchPartitionOwner (Some ''a'') None])
   \<and> last [WatchPartitionOwner None (Some (ErrOther ''zk'')), Sleep1,
        WatchPartitionOwner (Some ''a'') None] = WatchPartitionOwner (Some ''a'') None"
  using claimPartition_self_owner_fatal
    [of "\<lparr>watch_owner = Some ''a'', watch_err = None, claim_wake = Woken, claim_err = None\<rparr>"
        "''a''"
        "[\<lparr>watch_owner = None, watch_err = None, claim_wake = Woken, claim_err = None\<rparr>]"
        "[\<lparr>watch_owner = None, watch_err = Some (ErrOther ''zk''), claim_wake = Woken,
           claim_err = None\<rparr>,
          \<lparr>watch_owner = Some ''a'', watch_err = None, claim_wake = Woken, claim_err = None\<rparr>,
          \<lparr>watch_owner = None, watch_err = None, claim_wake = Woken, claim_err = None\<rparr>]"
        "Some ErrAlreadyOwner"
        "[WatchPartitionOwner None (Some (ErrOther ''zk'')), Sleep1,
          WatchPartitionOwner (Some ''a'') None]"]
  by simp

subsection \<open>Startup helpers\<close>

text \<open>
  C6, as the claim states it: both helpers return a handle or \<open>ErrDying\<close>, and every
  failed open that is retried is followed by the one second wait. The second half fails
  for \<open>startPartitionConsumer\<close>: after \<open>ErrOffsetOutOfRange\<close> it opens again at once.
\<close>

theorem startPartitionConsumer_retry_without_delay:
  "startPartitionConsumer example_cfg 42 [out_of_range, consume_ok]
     = Some (Inr \<lparr>opened_at = OffsetNewest\<rparr>,
         [ConsumePartition 42 (Some ErrOffsetOutOfRange), ConsumePartition OffsetNewest None])
   \<and> \<not> retries_delayed no_exemption
         [ConsumePartition 42 (Some ErrOffsetOutOfRange), ConsumePartition OffsetNewest None]"
  by (simp add: out_of_range_def consume_ok_def example_cfg_def no_exemption_def)

text \<open>
  C6, amended. Both helpers return a handle or \<open>ErrDying\<close>, never another error, and
  \<open>ErrDying\<close> only when the tomb died during the wait after a failed open. Every other
  failed open is retried: after the one second wait and at the same offset, except
  that \<open>startPartitionConsumer\<close> retries \<open>ErrOffsetOutOfRange\<close> at once, without the
  wait, at the configured initial offset. Each helper is the function that these words
  describe: it returns at the first attempt that is not retried, after exactly the
  calls and waits of the attempts before it.
\<close>

theorem startup_helpers_results:
  "startPartitionOffsetManager ms = spec_startPartitionOffsetManager ms
   \<and> startPartitionConsumer cfg off cs = spec_startPartitionConsumer cfg off cs
   \<and> (startPartitionOffsetManager ms = Some (res1, tr1) \<longrightarrow>
        (res1 = Inl ErrDying \<or> (\<exists>h. res1 = Inr h)) \<and> retries_delayed no_exemption tr1)
   \<and> (startPartitionConsumer cfg off cs = Some (res2, tr2) \<longrightarrow>
        (res2 = Inl ErrDying \<or> (\<exists>h. res2 = Inr h)) \<and> retries_delayed is_out_of_range tr2)
   \<and> (startPartitionOffsetManager ms = Some (Inl err1, tr1) \<longrightarrow>
        (\<exists>a \<in> set ms. manage_err a \<noteq> None \<and> om_wake a = Interrupted))
   \<and> (startPartitionConsumer cfg off cs = Some (Inl err2, tr2) \<longrightarrow>
        (\<exists>a \<in> set cs. consume_err a \<noteq> None \<and> consume_err a \<noteq> Some ErrOffsetOutOfRange
           \<and> pc_wake a = Interrupted))
   \<and> (manage_err m = Some e \<and> om_wake m = Woken \<longrightarrow>
        startPartitionOffsetManager (m # ms)
          = emit [ManagePartition (Some e), Sleep1] (startPartitionOffsetManager ms))
   \<and> (consume_err c = Some ErrOffsetOutOfRange \<longrightarrow>
        startPartitionConsumer cfg off (c # cs)
          = emit [ConsumePartition off (Some ErrOffsetOutOfRange)]
              (startPartitionConsumer cfg (Offsets_Initial cfg) cs))
   \<and> (consume_err c = Some e \<and> e \<noteq> ErrOffsetOutOfRange \<and> pc_wake c = Woken \<longrightarrow>
        startPartitionConsumer cfg off (c # cs)
          = emit [ConsumePartition off (Some e), Sleep1] (startPartitionConsumer cfg off cs))"
proof (intro conjI impI)
  show "startPartitionOffsetManager ms = spec_startPartitionOffsetManager ms"
    by (rule startPartitionOffsetManager_spec)
  show "startPartitionConsumer cfg off cs = spec_startPartitionConsumer cfg off cs"
    by (rule startPartitionConsumer_spec)
next
  assume r: "startPartitionOffsetManager ms = Some (res1, tr1)"
  show "res1 = Inl ErrDying \<or> (\<exists>h. res1 = Inr h)"
    by (rule startPartitionOffsetManager_result [OF r])
  show "retries_delayed no_exemption tr1"
    by (rule startPartitionOffsetManager_delayed [OF r])
next
  assume r: "startPartitionConsumer cfg off cs = Some (res2, tr2)"
  show "res2 = Inl ErrDying \<or> (\<exists>h. res2 = Inr h)"
    by (rule startPartitionConsumer_result [OF r])
  show "retries_delayed is_out_of_range tr2"
    by (rule startPartitionConsumer_delayed [OF r])
next
  assume "startPartitionOffsetManager ms = Some (Inl err1, tr1)"
  then show "\<exists>a \<in> set ms. manage_err a \<noteq> None \<and> om_wake a = Interrupted"
    by (rule startPartitionOffsetManager_dying)
next
  assume "startPartitionConsumer cfg off cs = Some (Inl err2, tr2)"
  then show "\<exists>a \<in> set cs. consume_err a \<noteq> None \<and> consume_err a \<noteq> Some ErrOffsetOutOfRange
           \<and> pc_wake a = Interrupted"
    by (rule startPartitionConsumer_dying)
next
  assume "manage_err m = Some e \<and> om_wake m = Woken"
  then show "startPartitionOffsetManager (m # ms)
          = emit [ManagePartition (Some e), Sleep1] (startPartitionOffsetManager ms)"
    by simp
next
  assume "consume_err c = Some ErrOffsetOutOfRange"
  then show "startPartitionConsumer cfg off (c # cs)
          = emit [ConsumePartition off (Some ErrOffsetOutOfRange)]
              (startPartitionConsumer cfg (Offsets_Initial cfg) cs)"
    by simp
next
  assume "consume_err c = Some e \<and> e \<noteq> ErrOffsetOutOfRange \<and> pc_wake c = Woken"
  then show "startPartitionConsumer cfg off (c # cs)
          = emit [ConsumePartition off (Some e), Sleep1] (startPartitionConsumer cfg off cs)"
    by simp
qed

theorem startup_helpers_results_witness:
  "startPartitionOffsetManager
     [\<lparr>manage_err = Some (ErrOther ''broker''), om_wake = Woken\<rparr>,
      \<lparr>manage_err = Some (ErrOther ''broker''), om_wake = Interrupted\<rparr>]
     = Some (Inl ErrDying,
         [ManagePartition (Some (ErrOther ''broker'')), Sleep1,
          ManagePartition (Some (ErrOther ''broker''))])
   \<and> spec_startPartitionOffsetManager
     [\<lparr>manage_err = Some (ErrOther ''broker''), om_wake = Woken\<rparr>,
      \<lparr>manage_err = Some (ErrOther ''broker''), om_wake = Interrupted\<rparr>]
     = Some (Inl ErrDying,
         [ManagePartition (Some (ErrOther ''broker'')), Sleep1,
          ManagePartition (Some (ErrOther ''broker''))])
   \<and> retries_delayed no_exemption
        [ManagePartition (Some (ErrOther ''broker'')), Sleep1,
         ManagePartition (Some (ErrOther ''broker''))]
   \<and> startPartitionConsumer example_cfg 42
        [out_of_range, \<lparr>consume_err = Some (ErrOther ''broker''), pc_wake = Woken\<rparr>,
         \<lparr>consume_err = Some (ErrOther ''broker''), pc_wake = Interrupted\<rparr>]
     = Some (Inl ErrDying,
         [ConsumePartition 42 (Some ErrOffsetOutOfRange),
          ConsumePartition OffsetNewest (Some (ErrOther ''broker'')), Sleep1,
          ConsumePartition OffsetNewest (Some (ErrOther ''broker''))])
   \<and> spec_startPartitionConsumer example_cfg 42
        [out_of_range, \<lparr>consume_err = Some (ErrOther ''broker''), pc_wake = Woken\<rparr>,
         \<lparr>consume_err = Some (ErrOther ''broker''), pc_wake = Interrupted\<rparr>]
     = Some (Inl ErrDying,
         [ConsumePartition 42 (Some ErrOffsetOutOfRange),
          ConsumePartition OffsetNewest (Some (ErrOther ''broker'')), Sleep1,
          ConsumePartition OffsetNewest (Some (ErrOther ''broker''))])
   \<and> retries_delayed is_out_of_range
        [ConsumePartition 42 (Some ErrOffsetOutOfRange),
         ConsumePartition OffsetNewest (Some (ErrOther ''broker'')), Sleep1,
         ConsumePartition OffsetNewest (Some (ErrOther ''broker''))]
   \<and> startPartitionConsumer example_cfg 42
        [\<lparr>consume_err = Some (ErrOther ''broker''), pc_wake = Woken\<rparr>, consume_ok]
     = Some (Inr \<lparr>opened_at = 42\<rparr>,
         [ConsumePartition 42 (Some (ErrOther ''broker'')), Sleep1, ConsumePartition 42 None])"
proof -
  let ?ms = "[\<lparr>manage_err = Some (ErrOther ''broker''), om_wake = Woken\<rparr>,
              \<lparr>manage_err = Some (ErrOther ''broker''), om_wake = Interrupted\<rparr>]"
  let ?cs = "[\<lparr>consume_err = Some (ErrOther ''broker''), pc_wake = Woken\<rparr>,
              \<lparr>consume_err = Some (ErrOther ''broker''), pc_wake = Interrupted\<rparr>]"
  let ?tr1 = "[ManagePartition (Some (ErrOther ''broker'')), Sleep1,
               ManagePartition (Some (ErrOther ''broker''))]"
  let ?tr2 = "[ConsumePartition 42 (Some ErrOffsetOutOfRange),
               ConsumePartition OffsetNewest (Some (ErrOther ''broker'')), Sleep1,
               ConsumePartition OffsetNewest (Some (ErrOther ''broker''))]"
  let ?c = "\<lparr>consume_err = Some (ErrOther ''broker''), pc_wake = Woken\<rparr>"
  note retried = startup_helpers_results
    [of ?ms example_cfg 42 "out_of_range # ?cs" "Inl ErrDying" ?tr1 "Inl ErrDying" ?tr2
        ErrDying ErrDying
        "\<lparr>manage_err = Some (ErrOther ''broker''), om_wake = Woken\<rparr>"
        "ErrOther ''broker''" out_of_range]
  note delayed = startup_helpers_results
    [of ?ms example_cfg 42 "[consume_ok]" "Inl ErrDying" ?tr1
        "Inr \<lparr>opened_at = 42\<rparr>" "[ConsumePartition 42 None]"
        ErrDying ErrDying
        "\<lparr>manage_err = Some (ErrOther ''broker''), om_wake = Woken\<rparr>"
        "ErrOther ''broker''" ?c]
  have om: "startPartitionOffsetManager ?ms = Some (Inl ErrDying, ?tr1)"
    by simp
  have pc: "startPartitionConsumer example_cfg 42 (out_of_range # ?cs)
              = Some (Inl ErrDying, ?tr2)"
    by (simp add: out_of_range_def example_cfg_def)
  have "startPartitionOffsetManager ?ms = spec_startPartitionOffsetManager ?ms"
    by (rule retried [THEN conjunct1])
  with om have om_spec: "spec_startPartitionOffsetManager ?ms = Some (Inl ErrDying, ?tr1)"
    by simp
  have "startPartitionConsumer example_cfg 42 (out_of_range # ?cs)
          = spec_startPartitionConsumer example_cfg 42 (out_of_range # ?cs)"
    by (rule retried [THEN conjunct2, THEN conjunct1])
  with pc have pc_spec:
    "spec_startPartitionConsumer example_cfg 42 (out_of_range # ?cs) = Some (Inl ErrDying, ?tr2)"
    by simp
  from retried om have om_delayed: "retries_delayed no_exemption ?tr1"
    by blast
  from retried pc have pc_delayed: "retries_delayed is_out_of_range ?tr2"
    by blast
  have ok: "startPartitionConsumer example_cfg 42 [consume_ok]
              = Some (Inr \<lparr>opened_at = 42\<rparr>, [ConsumePartition 42 None])"
    by (simp add: consume_ok_def)
  have c: "consume_err ?c = Some (ErrOther ''broker'')
             \<and> ErrOther ''broker'' \<noteq> ErrOffsetOutOfRange \<and> pc_wake ?c = Woken"
    by simp
  from delayed c have
    "startPartitionConsumer example_cfg 42 (?c # [consume_ok])
       = emit [ConsumePartition 42 (Some (ErrOther ''broker'')), Sleep1]
           (startPartitionConsumer example_cfg 42 [consume_ok])"
    by blast
  then have step: "startPartitionConsumer example_cfg 42 [?c, consume_ok]
       = Some (Inr \<lparr>opened_at = 42\<rparr>,
           [ConsumePartition 42 (Some (ErrOther ''broker'')), Sleep1, ConsumePartition 42 None])"
    unfolding ok by simp
  from om om_spec om_delayed pc pc_spec pc_delayed step show ?thesis
    by blast
qed

text \<open>
  C3. The claim says that an \<open>ErrOffsetOutOfRange\<close> answer causes exactly one fallback
  and can never give an unbounded loop of such failures. The source falls back to the
  configured initial offset and opens again at once, every time, with no bound and
  without the look at the tomb that the other failures take: when the broker answers
  \<open>ErrOffsetOutOfRange\<close> to the configured initial offset as well there are two fallbacks
  and more, and while it goes on so the loop does not return, even with the tomb dying
  at every iteration.
\<close>

theorem startPartitionConsumer_falls_back_twice:
  "startPartitionConsumer example_cfg 42 [out_of_range, out_of_range, consume_ok]
     = Some (Inr \<lparr>opened_at = OffsetNewest\<rparr>,
         [ConsumePartition 42 (Some ErrOffsetOutOfRange),
          ConsumePartition OffsetNewest (Some ErrOffsetOutOfRange),
          ConsumePartition OffsetNewest None])
   \<and> out_of_range_failures
        [ConsumePartition 42 (Some ErrOffsetOutOfRange),
         ConsumePartition OffsetNewest (Some ErrOffsetOutOfRange),
         ConsumePartition OffsetNewest None] = 2
   \<and> startPartitionConsumer example_cfg 42
        [out_of_range\<lparr>pc_wake := Interrupted\<rparr>, out_of_range\<lparr>pc_wake := Interrupted\<rparr>,
         out_of_range\<lparr>pc_wake := Interrupted\<rparr>] = None"
  by (simp add: out_of_range_def consume_ok_def example_cfg_def)

text \<open>
  What holds of the fallback in general: after any number of \<open>ErrOffsetOutOfRange\<close>
  answers in a row (one, then those of \<open>pre\<close>) the loop has called \<open>ConsumePartition\<close>
  once at the offset it was given and once at the configured initial offset for each
  further answer, with no wait, and goes on as a startup at the configured initial
  offset.
\<close>

lemma startPartitionConsumer_out_of_range_run:
  assumes "consume_err a = Some ErrOffsetOutOfRange"
    and "\<forall>b \<in> set pre. consume_err b = Some ErrOffsetOutOfRange"
  shows "startPartitionConsumer cfg off (a # pre @ rest) =
     emit (ConsumePartition off (Some ErrOffsetOutOfRange)
            # replicate (length pre)
                (ConsumePartition (Offsets_Initial cfg) (Some ErrOffsetOutOfRange)))
       (startPartitionConsumer cfg (Offsets_Initial cfg) rest)"
proof -
  let ?ev = "ConsumePartition (Offsets_Initial cfg) (Some ErrOffsetOutOfRange)"
  have "startPartitionConsumer cfg off (a # pre @ rest) =
          emit [ConsumePartition off (Some ErrOffsetOutOfRange)]
            (startPartitionConsumer cfg (Offsets_Initial cfg) (pre @ rest))"
    by (rule startPartitionConsumer_out_of_range_step [OF assms(1)])
  also have "\<dots> = emit [ConsumePartition off (Some ErrOffsetOutOfRange)]
            (emit (replicate (length pre) ?ev)
               (startPartitionConsumer cfg (Offsets_Initial cfg) rest))"
    by (simp only: startPartitionConsumer_out_of_range_again [OF assms(2)])
  finally show ?thesis by (simp add: emit_emit)
qed

subsection \<open>The starting offset\<close>

text \<open>
  C5. The first offset \<open>run\<close> asks the consumer for is the configured initial offset
  when the committed offset read at startup is negative (none exists), and the committed
  offset plus one otherwise, the addition being the one of \<open>int64\<close>.
\<close>

theorem run_starts_after_committed:
  assumes "run cfg self env pm = Some (pm', tr)" and "consume_offsets tr \<noteq> []"
  shows "hd (consume_offsets tr) =
           (if sint (env_committed env) < 0 then Offsets_Initial cfg
            else env_committed env + 1)"
  using assms(1)
proof (cases rule: run_cases)
  case (claim_failed err tr1)
  with claimPartition_trace [OF claim_failed(1)] assms(2) show ?thesis by simp
next
  case (manage_failed tr1 err tr2)
  with claimPartition_trace [OF manage_failed(1)]
    startPartitionOffsetManager_trace [OF manage_failed(2)] assms(2)
  show ?thesis by simp
next
  case (consume_failed tr1 om tr2 err tr3 out)
  from startPartitionConsumer_first_offset [OF consume_failed(3)] obtain rest where
    "consume_offsets tr3 = resolveInitialOffset cfg (env_committed env) # rest" by blast
  with claimPartition_trace [OF consume_failed(1)]
    startPartitionOffsetManager_trace [OF consume_failed(2)]
  show ?thesis unfolding consume_failed(6) by (simp add: resolveInitialOffset_def)
next
  case (completed tr1 om tr2 pc tr3 pm2 tr4 out)
  from startPartitionConsumer_first_offset [OF completed(3)] obtain rest where
    "consume_offsets tr3 = resolveInitialOffset cfg (env_committed env) # rest" by blast
  with claimPartition_trace [OF completed(1)]
    startPartitionOffsetManager_trace [OF completed(2)]
  show ?thesis unfolding completed(6) by (simp add: resolveInitialOffset_def)
qed

theorem run_starts_after_committed_witness:
  "run example_cfg ''a'' example_env fresh_pm = Some (example_final, example_trace)
   \<and> consume_offsets example_trace \<noteq> []
   \<and> env_committed example_env = 41
   \<and> Offsets_Initial example_cfg = OffsetNewest
   \<and> hd (consume_offsets example_trace) = 42
   \<and> run example_cfg ''a'' uncommitted_env fresh_pm
        = Some (fresh_pm\<lparr>t_err := None, offsetManager := Some \<lparr>set_offsets = []\<rparr>\<rparr>,
                uncommitted_trace)
   \<and> consume_offsets uncommitted_trace \<noteq> []
   \<and> env_committed uncommitted_env = - 1
   \<and> hd (consume_offsets uncommitted_trace) = OffsetNewest"
proof -
  have ne: "consume_offsets example_trace \<noteq> []"
    by (simp add: example_trace_def)
  have ne': "consume_offsets uncommitted_trace \<noteq> []"
    by (simp add: uncommitted_trace_def)
  show ?thesis
    using example_run uncommitted_run ne ne'
      run_starts_after_committed [OF example_run ne]
      run_starts_after_committed [OF uncommitted_run ne']
    by (simp add: example_env_def example_cfg_def uncommitted_env_def)
qed

subsection \<open>The last consumed offset\<close>

text \<open>
  C8. When the offsets of the messages the consumer handle delivers are non-decreasing,
  starting from the value \<open>lastConsumedOffset\<close> has when \<open>run\<close> begins (the sentinel), the
  values \<open>lastConsumedOffset\<close> takes during \<open>run\<close> are non-decreasing; it is stored
  exactly once for each forwarded message, with the offset of that message; and the
  value it has in the end is the last one stored.
\<close>

theorem lastConsumedOffset_monotone:
  assumes "run cfg self env pm = Some (pm', tr)"
    and "sorted (map sint (lastConsumedOffset pm # delivered (env_loop env)))"
  shows "sorted (map sint (lastConsumedOffset pm # stored_offsets tr))
         \<and> stored_offsets tr = map msg_offset (forwarded_messages tr)
         \<and> lastConsumedOffset pm' = last (lastConsumedOffset pm # stored_offsets tr)"
  using assms(1)
proof (cases rule: run_cases)
  case (claim_failed err tr1)
  with claimPartition_trace [OF claim_failed(1)] show ?thesis by simp
next
  case (manage_failed tr1 err tr2)
  with claimPartition_trace [OF manage_failed(1)]
    startPartitionOffsetManager_trace [OF manage_failed(2)]
  show ?thesis by simp
next
  case (consume_failed tr1 om tr2 err tr3 out)
  with claimPartition_trace [OF consume_failed(1)]
    startPartitionOffsetManager_trace [OF consume_failed(2)]
    startPartitionConsumer_trace [OF consume_failed(3)]
  show ?thesis by simp
next
  case (completed tr1 om tr2 pc tr3 pm2 tr4 out)
  have "sorted (map sint (lastConsumedOffset (pm\<lparr>offsetManager := Some om\<rparr>)
                           # delivered (env_loop env)))"
    using assms(2) by simp
  from consumeLoop_monotone [OF completed(4) this]
  have "sorted (map sint (lastConsumedOffset pm # stored_offsets tr4))" by simp
  with claimPartition_trace [OF completed(1)]
    startPartitionOffsetManager_trace [OF completed(2)]
    startPartitionConsumer_trace [OF completed(3)]
    consumeLoop_trace [OF completed(4)]
  show ?thesis unfolding completed(5) completed(6) by simp
qed

theorem lastConsumedOffset_monotone_witness:
  "run example_cfg ''a'' example_env fresh_pm = Some (example_final, example_trace)
   \<and> lastConsumedOffset fresh_pm # delivered (env_loop example_env) = [- 1, 42, 43, 44]
   \<and> sorted (map sint [- 1, 42, 43, 44 :: int64])
   \<and> lastConsumedOffset fresh_pm # stored_offsets example_trace = [- 1, 42, 43, 44]
   \<and> lastConsumedOffset example_final = 44"
proof -
  have d: "lastConsumedOffset fresh_pm # delivered (env_loop example_env) = [- 1, 42, 43, 44]"
    by (simp add: fresh_pm_def example_env_def)
  have s: "sorted (map sint [- 1, 42, 43, 44 :: int64])"
    by simp
  have h: "sorted (map sint (lastConsumedOffset fresh_pm # delivered (env_loop example_env)))"
    unfolding d by (rule s)
  show ?thesis
    using example_run d s lastConsumedOffset_monotone [OF example_run h]
    by (simp add: example_trace_def fresh_pm_def example_final_def)
qed

subsection \<open>Draining\<close>



subsection \<open>The order of the states\<close>

text \<open>
  C9, as the claim states it: with the three closing calls making up the state
  Releasing, the states of a run occur in the order of the specification, the drain
  before every closing call. It fails on the run above: \<open>closePartitionConsumer\<close> is
  deferred last and so runs first, before \<open>waitForProcessing\<close>.
\<close>

theorem consumer_closed_before_drain:
  "run example_cfg ''a'' example_env fresh_pm = Some (example_final, example_trace)
   \<and> \<not> sorted (spec_ranks example_trace)"
  using example_run
  by (simp add: example_trace_def spec_ranks_def List.map_filter_def)

text \<open>
  C9, amended. The calls of a run occur in this order: those of Claiming, of
  OffsetManagerStarting, of ConsumerStarting, of Consuming, then the close of the
  consumer handle, the drain, the close of the offset manager handle, the release of the
  claim, and \<open>Done\<close>. The drain wait completes before the offset manager handle is
  closed and before the claim is released, and after the consumer handle is closed.
\<close>

theorem run_steps_in_order:
  assumes "run cfg self env pm = Some (pm', tr)"
  shows "sorted (run_steps tr)"
  using assms
proof (cases rule: run_cases)
  case (claim_failed err tr1)
  have "sorted ([8::nat]) \<and> (\<forall>y \<in> set [8::nat]. 0 \<le> y)" by simp
  from sorted_after_constant [OF _ this, of "run_steps tr1" 0]
    claimPartition_trace [OF claim_failed(1)]
  show ?thesis unfolding claim_failed(4) by simp
next
  case (manage_failed tr1 err tr2)
  have "sorted ([7, 8::nat]) \<and> (\<forall>y \<in> set [7, 8::nat]. 1 \<le> y)" by simp
  from sorted_after_constant [OF _ this, of "run_steps tr2" 0]
    startPartitionOffsetManager_trace [OF manage_failed(2)]
  have "sorted (run_steps tr2 @ [7, 8]) \<and> (\<forall>y \<in> set (run_steps tr2 @ [7, 8]). 0 \<le> y)"
    by simp
  from sorted_after_constant [OF _ this, of "run_steps tr1" 0]
    claimPartition_trace [OF manage_failed(1)]
  show ?thesis unfolding manage_failed(5) by simp
next
  case (consume_failed tr1 om tr2 err tr3 out)
  have "sorted ([5, 6, 7, 8::nat]) \<and> (\<forall>y \<in> set [5, 6, 7, 8::nat]. 2 \<le> y)" by simp
  from sorted_after_constant [OF _ this, of "run_steps tr3" 1]
    startPartitionConsumer_trace [OF consume_failed(3)]
  have "sorted (run_steps tr3 @ [5, 6, 7, 8])
          \<and> (\<forall>y \<in> set (run_steps tr3 @ [5, 6, 7, 8]). 1 \<le> y)"
    by simp
  from sorted_after_constant [OF _ this, of "run_steps tr2" 0]
    startPartitionOffsetManager_trace [OF consume_failed(2)]
  have "sorted (run_steps tr2 @ run_steps tr3 @ [5, 6, 7, 8])
          \<and> (\<forall>y \<in> set (run_steps tr2 @ run_steps tr3 @ [5, 6, 7, 8]). 0 \<le> y)"
    by simp
  from sorted_after_constant [OF _ this, of "run_steps tr1" 0]
    claimPartition_trace [OF consume_failed(1)]
  show ?thesis unfolding consume_failed(6) by simp
next
  case (completed tr1 om tr2 pc tr3 pm2 tr4 out)
  have "sorted ([4, 5, 6, 7, 8::nat]) \<and> (\<forall>y \<in> set [4, 5, 6, 7, 8::nat]. 3 \<le> y)" by simp
  from sorted_after_constant [OF _ this, of "run_steps tr4" 2]
    consumeLoop_trace [OF completed(4)]
  have "sorted (run_steps tr4 @ [4, 5, 6, 7, 8])
          \<and> (\<forall>y \<in> set (run_steps tr4 @ [4, 5, 6, 7, 8]). 2 \<le> y)"
    by simp
  from sorted_after_constant [OF _ this, of "run_steps tr3" 1]
    startPartitionConsumer_trace [OF completed(3)]
  have "sorted (run_steps tr3 @ run_steps tr4 @ [4, 5, 6, 7, 8])
          \<and> (\<forall>y \<in> set (run_steps tr3 @ run_steps tr4 @ [4, 5, 6, 7, 8]). 1 \<le> y)"
    by simp
  from sorted_after_constant [OF _ this, of "run_steps tr2" 0]
    startPartitionOffsetManager_trace [OF completed(2)]
  have "sorted (run_steps tr2 @ run_steps tr3 @ run_steps tr4 @ [4, 5, 6, 7, 8])
          \<and> (\<forall>y \<in> set (run_steps tr2 @ run_steps tr3 @ run_steps tr4 @ [4, 5, 6, 7, 8]).
                0 \<le> y)"
    by simp
  from sorted_after_constant [OF _ this, of "run_steps tr1" 0]
    claimPartition_trace [OF completed(1)]
  show ?thesis unfolding completed(6) by simp
qed

theorem run_steps_in_order_witness:
  "run example_cfg ''a'' example_env fresh_pm = Some (example_final, example_trace)
   \<and> run_steps example_trace
       = [0, 0, 0, 0, 0, 1, 1, 2, 3, 3, 3, 3, 3, 3, 3, 4, 5, 6, 7, 8]
   \<and> sorted (run_steps example_trace)"
  using example_run run_steps_in_order [OF example_run]
  by (simp add: example_trace_def)


end
